theory Spec2Isabelle
  imports Complex_Main "HOL-Library.Log_Nat"
begin

section \<open>JavaScript values\<close>

text \<open>
  The backend (\<^verbatim>\<open>src/backend/server.js\<close>) works on parsed JSON and on JavaScript numbers.
  A number is a finite value, \<^verbatim>\<open>NaN\<close> or one of the two infinities. A finite number is
  written as the real it stands for; the numbers of the language are the doubles among them
  (\<open>isDouble\<close> below), and the arithmetic that the program does on prices rounds its results
  to doubles.
\<close>

datatype jsnum = Fin real | NaN | PosInf | NegInf

subsection \<open>Double arithmetic\<close>

text \<open>
  IEEE 754 binary64, rounding to nearest, ties to even. \<open>expo y\<close> is the exponent of \<open>y\<close>:
  \<open>2 ^ expo y \<le> \<bar>y\<bar> < 2 ^ (expo y + 1)\<close>. The doubles around \<open>y\<close> are the multiples of
  \<open>ulp y\<close>, which is \<open>2 ^ (expo y - 52)\<close> for a normal number and \<open>2 ^ (- 1074)\<close> below
  \<open>2 ^ (- 1022)\<close>. \<open>flr y\<close> is the nearest of them, and \<open>fl y\<close> is the double that an
  operation with the exact result \<open>y\<close> returns: \<open>flr y\<close>, or an infinity when that is
  \<open>2 ^ 1024\<close> or more in size. The sign of zero is not modelled.
\<close>

definition expo :: "real \<Rightarrow> int" where
  "expo y =
     (if 1 \<le> \<bar>y\<bar> then bitlen \<lfloor>\<bar>y\<bar>\<rfloor> - 1
      else if y = 0 then 0
      else - bitlen (\<lceil>1 / \<bar>y\<bar>\<rceil> - 1))"

definition ulp :: "real \<Rightarrow> real" where
  "ulp y = 2 powi (max (expo y) (- 1022) - 52)"

definition rne :: "real \<Rightarrow> int" where
  "rne t =
     (let f = \<lfloor>t\<rfloor> in
      if t - of_int f < 1 / 2 then f
      else if t - of_int f > 1 / 2 then f + 1
      else if even f then f else f + 1)"

definition flr :: "real \<Rightarrow> real" where
  "flr y = of_int (rne (y / ulp y)) * ulp y"

definition fl :: "real \<Rightarrow> jsnum" where
  "fl y =
     (let r = flr y in
      if 1024 \<le> expo r then (if y > 0 then PosInf else NegInf) else Fin r)"

definition isDouble :: "real \<Rightarrow> bool" where
  "isDouble x = (fl x = Fin x)"

text \<open>\<^verbatim>\<open>a + b\<close> on numbers.\<close>

fun js_add :: "jsnum \<Rightarrow> jsnum \<Rightarrow> jsnum" where
  "js_add (Fin x) (Fin y) = fl (x + y)"
| "js_add NaN b = NaN"
| "js_add a NaN = NaN"
| "js_add PosInf NegInf = NaN"
| "js_add NegInf PosInf = NaN"
| "js_add PosInf b = PosInf"
| "js_add a PosInf = PosInf"
| "js_add NegInf b = NegInf"
| "js_add a NegInf = NegInf"

subsection \<open>Values\<close>

text \<open>
  The values of JSON, \<^verbatim>\<open>undefined\<close>, and functions: a function is never part of parsed
  JSON, but a read of an inherited property of an object (\<^verbatim>\<open>table["constructor"]\<close>) answers
  one. A function is represented by its name.
\<close>

datatype jsval =
    JUndefined
  | JNull
  | JBool bool
  | JNum jsnum
  | JStr string
  | JArr "jsval list"
  | JObj "(string \<times> jsval) list"
  | JFunction string

text \<open>
  Errors are values. One constructor per \<^verbatim>\<open>throw\<close> site of the source, plus the exceptions
  that the runtime raises: a property read on \<^verbatim>\<open>null\<close>/\<^verbatim>\<open>undefined\<close> or a call of a
  missing method (\<open>TypeError\<close>), a rejected \<^verbatim>\<open>fetch\<close> (\<open>NetworkError\<close>) and a body that
  is not JSON (\<open>SyntaxError\<close>).
\<close>

datatype js_error =
    TypeError string
  | NetworkError string
  | SyntaxError
  | RateGuardError int
  | TokenRequestFailed int string
  | StrivenApiError int string string "jsnum option"

text \<open>
  Three operations of the language are not written out: parsing a string as a number
  (\<^verbatim>\<open>Number("12.5")\<close>), printing a value that is not a string (\<^verbatim>\<open>String(12.5)\<close>,
  \<^verbatim>\<open>String([1,2])\<close>), and \<^verbatim>\<open>String.prototype.trim\<close>, which strips the white space and the
  line terminators of Unicode. They are parameters of the model; every theorem holds for all
  of them.
\<close>

record builtins =
  StringToNumber :: "string \<Rightarrow> jsnum"
  ToString :: "jsval \<Rightarrow> string"
  Trim :: "string \<Rightarrow> string"

definition truthy :: "jsval \<Rightarrow> bool" where
  "truthy v =
     (case v of
        JUndefined \<Rightarrow> False
      | JNull \<Rightarrow> False
      | JBool b \<Rightarrow> b
      | JNum (Fin r) \<Rightarrow> r \<noteq> 0
      | JNum NaN \<Rightarrow> False
      | JNum _ \<Rightarrow> True
      | JStr s \<Rightarrow> s \<noteq> []
      | JArr _ \<Rightarrow> True
      | JObj _ \<Rightarrow> True
      | JFunction _ \<Rightarrow> True)"

definition nullish :: "jsval \<Rightarrow> bool" where
  "nullish v = (v = JUndefined \<or> v = JNull)"

text \<open>\<^verbatim>\<open>a || b\<close> and \<^verbatim>\<open>a ?? b\<close> on values that are already computed.\<close>

definition js_or :: "jsval \<Rightarrow> jsval \<Rightarrow> jsval" where
  "js_or a b = (if truthy a then a else b)"

definition js_coalesce :: "jsval \<Rightarrow> jsval \<Rightarrow> jsval" where
  "js_coalesce a b = (if nullish a then b else a)"

text \<open>
  \<^verbatim>\<open>v.k\<close> raises on \<^verbatim>\<open>null\<close> and \<^verbatim>\<open>undefined\<close>; \<^verbatim>\<open>v?.k\<close> yields \<^verbatim>\<open>undefined\<close> there.
  The program reads only the keys \<^verbatim>\<open>itemType name groupItems price qty item id itemNumber
  description access_token expires_in\<close>, none of which is a built-in property of a string, a
  number, a boolean or an array, so on those the read yields \<^verbatim>\<open>undefined\<close>; a function has
  its \<^verbatim>\<open>name\<close>. The objects are those of parsed JSON, which carry these keys only as own
  properties.
\<close>

definition lookupProp :: "jsval \<Rightarrow> string \<Rightarrow> jsval" where
  "lookupProp v k =
     (case v of
        JObj kvs \<Rightarrow> (case map_of kvs k of Some x \<Rightarrow> x | None \<Rightarrow> JUndefined)
      | JFunction f \<Rightarrow> (if k = ''name'' then JStr f else JUndefined)
      | _ \<Rightarrow> JUndefined)"

definition getProp :: "jsval \<Rightarrow> string \<Rightarrow> js_error + jsval" where
  "getProp v k = (if nullish v then Inl (TypeError k) else Inr (lookupProp v k))"

definition optProp :: "jsval \<Rightarrow> string \<Rightarrow> jsval" where
  "optProp v k = (if nullish v then JUndefined else lookupProp v k)"

definition Number_js :: "builtins \<Rightarrow> jsval \<Rightarrow> jsnum" where
  "Number_js B v =
     (case v of
        JUndefined \<Rightarrow> NaN
      | JNull \<Rightarrow> Fin 0
      | JBool b \<Rightarrow> Fin (if b then 1 else 0)
      | JNum n \<Rightarrow> n
      | JStr s \<Rightarrow> StringToNumber B s
      | JArr xs \<Rightarrow> StringToNumber B (ToString B (JArr xs))
      | JObj kvs \<Rightarrow> NaN
      | JFunction f \<Rightarrow> NaN)"

definition String_js :: "builtins \<Rightarrow> jsval \<Rightarrow> string" where
  "String_js B v = (case v of JStr s \<Rightarrow> s | _ \<Rightarrow> ToString B v)"

definition lowerChar :: "char \<Rightarrow> char" where
  "lowerChar c =
     (let n = (of_char c :: nat) in if 65 \<le> n \<and> n \<le> 90 then char_of (n + 32) else c)"

text \<open>
  \<^verbatim>\<open>typeName.toLowerCase()\<close>: a method of strings only. On any other value that reaches the
  call (a number, \<^verbatim>\<open>true\<close>, an array, an object) the method is missing and the call raises.
  Letters outside ASCII are left as they are: none of them lowers to a letter of
  \<^verbatim>\<open>"item group"\<close>.
\<close>

definition toLowerCase :: "jsval \<Rightarrow> js_error + string" where
  "toLowerCase v =
     (case v of JStr s \<Rightarrow> Inr (map lowerChar s) | _ \<Rightarrow> Inl (TypeError ''toLowerCase''))"

section \<open>Pricing\<close>

text \<open>
  \<^verbatim>\<open>function toNumber(x) { const n = Number(x); return Number.isFinite(n) ? n : 0; }\<close>
\<close>

definition toNumber :: "builtins \<Rightarrow> jsval \<Rightarrow> real" where
  "toNumber B x = (case Number_js B x of Fin n \<Rightarrow> n | _ \<Rightarrow> 0)"

text \<open>The chain of tests that picks \<^verbatim>\<open>step\<close> in \<^verbatim>\<open>roundUpNice\<close>, in the source's order.\<close>

definition niceStep :: "real \<Rightarrow> real" where
  "niceStep x =
     (if x \<ge> 10 \<and> x < 100 then 5
      else if x \<ge> 100 \<and> x \<le> 500 then 20
      else if x > 500 \<and> x \<le> 1000 then 50
      else if x > 1000 then 100
      else 1)"

text \<open>
  \<^verbatim>\<open>Math.ceil(x / step) * step\<close>: the quotient is rounded to a double, \<^verbatim>\<open>Math.ceil\<close> of a
  double is exact, and the product is rounded again. The quotient of a finite number by a
  step of at least 1 is finite.
\<close>

definition roundUpNice :: "builtins \<Rightarrow> jsval \<Rightarrow> jsnum" where
  "roundUpNice B n =
     (let x = toNumber B n in
      if x \<le> 0 then Fin 0 else fl (of_int \<lceil>flr (x / niceStep x)\<rceil> * niceStep x))"

text \<open>The tiers as the specification lists them, to compare with \<open>niceStep\<close>.\<close>

definition spec_step :: "real \<Rightarrow> real" where
  "spec_step x =
     (if 0 \<le> x \<and> x < 10 then 1
      else if 10 \<le> x \<and> x < 100 then 5
      else if 100 \<le> x \<and> x \<le> 500 then 20
      else if 500 < x \<and> x \<le> 1000 then 50
      else 100)"

datatype kind = SRG | ITEM

text \<open>
  The quantity and the unit price of a component are finite (\<^verbatim>\<open>toNumber\<close>); their product
  and the sum of the products are doubles that may be infinite, and the sum may be
  \<^verbatim>\<open>NaN\<close>.
\<close>

record component =
  itemId :: jsval
  cname :: jsval
  qty :: real
  unitPrice :: real
  lineTotal :: jsnum

record pricing =
  rawTotal :: jsnum
  components :: "component list"
  kind :: kind

text \<open>\<^verbatim>\<open>Array.prototype.map\<close> with a callback that may raise: the first exception ends it.\<close>

fun mapE :: "('a \<Rightarrow> 'e + 'b) \<Rightarrow> 'a list \<Rightarrow> 'e + 'b list" where
  "mapE f [] = Inr []"
| "mapE f (x # xs) =
     (case f x of
        Inl e \<Rightarrow> Inl e
      | Inr y \<Rightarrow> (case mapE f xs of Inl e \<Rightarrow> Inl e | Inr ys \<Rightarrow> Inr (y # ys)))"

text \<open>The callback of \<^verbatim>\<open>itemJson.groupItems.map(g => ...)\<close>.\<close>

definition groupComponent :: "builtins \<Rightarrow> jsval \<Rightarrow> js_error + component" where
  "groupComponent B g =
     (case getProp g ''qty'' of
        Inl e \<Rightarrow> Inl e
      | Inr q \<Rightarrow>
          (case getProp g ''price'' of
             Inl e \<Rightarrow> Inl e
           | Inr p \<Rightarrow>
               Inr \<lparr> itemId = js_coalesce (optProp (optProp g ''item'') ''id'') JNull,
                     cname = js_coalesce (optProp (optProp g ''item'') ''name'') (JStr ''''),
                     qty = toNumber B q,
                     unitPrice = toNumber B p,
                     lineTotal = fl (toNumber B q * toNumber B p) \<rparr>))"

text \<open>The last two lines of \<^verbatim>\<open>calcItemRawTotal\<close> (the branch commented "Normal item").\<close>

definition normalItem :: "builtins \<Rightarrow> jsval \<Rightarrow> js_error + pricing" where
  "normalItem B itemJson =
     (case getProp itemJson ''price'' of
        Inl e \<Rightarrow> Inl e
      | Inr p \<Rightarrow> Inr \<lparr> rawTotal = Fin (toNumber B p), components = [], kind = ITEM \<rparr>)"

definition calcItemRawTotal :: "builtins \<Rightarrow> jsval \<Rightarrow> js_error + pricing" where
  "calcItemRawTotal B itemJson =
     (let typeName = js_or (optProp (optProp itemJson ''itemType'') ''name'') (JStr '''') in
      case toLowerCase typeName of
        Inl e \<Rightarrow> Inl e
      | Inr lowered \<Rightarrow>
          if lowered = ''item group'' then
            (case getProp itemJson ''groupItems'' of
               Inl e \<Rightarrow> Inl e
             | Inr (JArr gs) \<Rightarrow>
                 (case mapE (groupComponent B) gs of
                    Inl e \<Rightarrow> Inl e
                  | Inr cs \<Rightarrow>
                      Inr \<lparr> rawTotal = foldl (\<lambda>sum c. js_add sum (lineTotal c)) (Fin 0) cs,
                            components = cs,
                            kind = SRG \<rparr>)
             | Inr _ \<Rightarrow> normalItem B itemJson)
          else normalItem B itemJson)"

section \<open>The outside world and the process state\<close>

text \<open>
  What the process cannot decide is an oracle of the environment: the value of each call of
  \<^verbatim>\<open>Date.now()\<close> and the outcome of each network call, both indexed by how many were made
  before. The configuration read at start-up is part of the environment too. The quota is
  \<^verbatim>\<open>Number(process.env.STRIVEN_MAX_CALLS_PER_MIN || 90)\<close>, any number. The two mapping
  files are parsed as JSON of any shape (\<^verbatim>\<open>{}\<close> when a file is missing or is not JSON); the
  program only reads \<^verbatim>\<open>table[key]\<close> on them, so a table is given by the value of that
  expression for every key, own and inherited properties alike, and is \<open>None\<close> when the file
  holds \<^verbatim>\<open>null\<close>, on which the read raises.
\<close>

record http_response =
  res_status :: int
  body_text :: string
  body_json :: "jsval option"
  retry_after_header :: "string option"

datatype fetch_result = Rejected string | Responded http_response

record env =
  js :: builtins
  clock :: "nat \<Rightarrow> int"
  tokenEndpoint :: "nat \<Rightarrow> fetch_result"
  itemEndpoint :: "nat \<Rightarrow> string \<Rightarrow> jsval \<Rightarrow> fetch_result"
  STRIVEN_MAX_CALLS_PER_MIN :: jsnum
  itemNumberToId :: "(string \<Rightarrow> jsval) option"
  itemNameToIdMissingNumber :: "(string \<Rightarrow> jsval) option"

text \<open>
  The module's variables (\<^verbatim>\<open>windowStartMs windowCount itemByIdCache cachedToken
  tokenExpiresAt\<close>) and three counters of what has been asked of the environment so far.
  Times and the call counter are integers: the times are milliseconds since 1970 and the
  counter restarts every minute, so both stay far below \<open>2 ^ 53\<close>, where the sums and
  differences of doubles are exact.
\<close>

record state =
  ticks :: nat
  tokenCalls :: nat
  itemCalls :: nat
  windowStartMs :: int
  windowCount :: int
  itemByIdCache :: "string \<rightharpoonup> (int \<times> jsval)"
  cachedToken :: jsval
  tokenExpiresAt :: jsnum

definition ITEM_CACHE_TTL_MS :: int where
  "ITEM_CACHE_TTL_MS = 10 * 60 * 1000"

definition Date_now :: "env \<Rightarrow> state \<Rightarrow> int \<times> state" where
  "Date_now E s = (clock E (ticks s), s\<lparr>ticks := Suc (ticks s)\<rparr>)"

definition res_ok :: "http_response \<Rightarrow> bool" where
  "res_ok r = (200 \<le> res_status r \<and> res_status r \<le> 299)"

text \<open>\<^verbatim>\<open>a < n\<close> for a finite \<open>a\<close> and any number \<open>n\<close>.\<close>

definition less_jsnum :: "real \<Rightarrow> jsnum \<Rightarrow> bool" where
  "less_jsnum a n = (case n of Fin r \<Rightarrow> a < r | PosInf \<Rightarrow> True | _ \<Rightarrow> False)"

section \<open>Rate guard\<close>

definition rateWindowResetIfNeeded :: "env \<Rightarrow> state \<Rightarrow> state" where
  "rateWindowResetIfNeeded E s =
     (let (now, s1) = Date_now E s in
      if now - windowStartMs s1 \<ge> 60000
      then s1\<lparr>windowStartMs := now, windowCount := 0\<rparr>
      else s1)"

definition canSpendStrivenCall :: "env \<Rightarrow> state \<Rightarrow> bool \<times> state" where
  "canSpendStrivenCall E s =
     (let s1 = rateWindowResetIfNeeded E s in
      (less_jsnum (real_of_int (windowCount s1)) (STRIVEN_MAX_CALLS_PER_MIN E), s1))"

definition spendStrivenCall :: "env \<Rightarrow> state \<Rightarrow> state" where
  "spendStrivenCall E s =
     (let s1 = rateWindowResetIfNeeded E s in s1\<lparr>windowCount := windowCount s1 + 1\<rparr>)"

definition getRetryAfterSeconds :: "env \<Rightarrow> state \<Rightarrow> int \<times> state" where
  "getRetryAfterSeconds E s =
     (let s1 = rateWindowResetIfNeeded E s;
          (now, s2) = Date_now E s1;
          msLeft = max 0 (60000 - (now - windowStartMs s2))
      in (max 1 \<lceil>real_of_int msLeft / 1000\<rceil>, s2))"

text \<open>
  The first lines of \<^verbatim>\<open>strivenFetch\<close>: the check, the exception when the guard denies,
  the spending when it admits. \<open>Inl\<close> carries \<^verbatim>\<open>err.retryAfter\<close>.
\<close>

definition admitStrivenCall :: "env \<Rightarrow> state \<Rightarrow> (int + unit) \<times> state" where
  "admitStrivenCall E s =
     (let (ok, s1) = canSpendStrivenCall E s in
      if \<not> ok then (let (retryAfter, s2) = getRetryAfterSeconds E s1 in (Inl retryAfter, s2))
      else (Inr (), spendStrivenCall E s1))"


section \<open>Token cache\<close>

text \<open>Arithmetic of a number that may not be finite with a finite one.\<close>

definition jsnum_times :: "jsnum \<Rightarrow> real \<Rightarrow> jsnum" where
  "jsnum_times n k =
     (case n of
        Fin r \<Rightarrow> Fin (r * k)
      | NaN \<Rightarrow> NaN
      | PosInf \<Rightarrow> (if k > 0 then PosInf else if k < 0 then NegInf else NaN)
      | NegInf \<Rightarrow> (if k > 0 then NegInf else if k < 0 then PosInf else NaN))"

definition jsnum_plus :: "jsnum \<Rightarrow> real \<Rightarrow> jsnum" where
  "jsnum_plus n k = (case n of Fin r \<Rightarrow> Fin (r + k) | _ \<Rightarrow> n)"

text \<open>\<^verbatim>\<open>(Number(json.expires_in) || 86400) * 1000\<close>\<close>

definition expiresInMs :: "builtins \<Rightarrow> jsval \<Rightarrow> jsnum" where
  "expiresInMs B v =
     jsnum_times (let n = Number_js B v in if truthy (JNum n) then n else Fin 86400) 1000"

text \<open>
  \<^verbatim>\<open>getAccessToken\<close>. The request to the token endpoint carries only constants of the
  configuration, so its outcome depends on nothing but which call it is.
\<close>

definition getAccessToken :: "env \<Rightarrow> state \<Rightarrow> (js_error + jsval) \<times> state" where
  "getAccessToken E s =
     (let (now, s1) = Date_now E s in
      if truthy (cachedToken s1) \<and> less_jsnum (real_of_int now) (tokenExpiresAt s1)
      then (Inr (cachedToken s1), s1)
      else
        (let res = tokenEndpoint E (tokenCalls s1);
             s2 = s1\<lparr>tokenCalls := Suc (tokenCalls s1)\<rparr>
         in case res of
              Rejected m \<Rightarrow> (Inl (NetworkError m), s2)
            | Responded r \<Rightarrow>
                if \<not> res_ok r then (Inl (TokenRequestFailed (res_status r) (body_text r)), s2)
                else
                  (case body_json r of
                     None \<Rightarrow> (Inl SyntaxError, s2)
                   | Some json \<Rightarrow>
                       (case getProp json ''access_token'' of
                          Inl e \<Rightarrow> (Inl e, s2)
                        | Inr tok \<Rightarrow>
                            (let s3 = s2\<lparr>cachedToken := tok\<rparr>;
                                 ms = expiresInMs (js E) (lookupProp json ''expires_in'');
                                 (t, s4) = Date_now E s3
                             in (Inr tok,
                                 s4\<lparr>tokenExpiresAt :=
                                      jsnum_plus (jsnum_plus ms (real_of_int t)) (- 60000)\<rparr>))))))"

section \<open>Guarded upstream call\<close>

text \<open>
  \<^verbatim>\<open>const ra = res.headers.get("retry-after"); if (ra) err.retryAfter = Number(ra) || undefined;\<close>
\<close>

definition retryAfterOfHeader :: "builtins \<Rightarrow> string option \<Rightarrow> jsnum option" where
  "retryAfterOfHeader B h =
     (case h of
        None \<Rightarrow> None
      | Some ra \<Rightarrow>
          if ra = [] then None
          else (let n = StringToNumber B ra in if truthy (JNum n) then Some n else None))"

definition strivenFetch :: "env \<Rightarrow> string \<Rightarrow> state \<Rightarrow> (js_error + jsval) \<times> state" where
  "strivenFetch E path s =
     (case admitStrivenCall E s of
        (Inl retryAfter, s1) \<Rightarrow> (Inl (RateGuardError retryAfter), s1)
      | (Inr u, s1) \<Rightarrow>
          (case getAccessToken E s1 of
             (Inl e, s2) \<Rightarrow> (Inl e, s2)
           | (Inr token, s2) \<Rightarrow>
               (let res = itemEndpoint E (itemCalls s2) path token;
                    s3 = s2\<lparr>itemCalls := Suc (itemCalls s2)\<rparr>
                in case res of
                     Rejected m \<Rightarrow> (Inl (NetworkError m), s3)
                   | Responded r \<Rightarrow>
                       if \<not> res_ok r
                       then (Inl (StrivenApiError (res_status r) path (body_text r)
                                    (retryAfterOfHeader (js E) (retry_after_header r))), s3)
                       else
                         (case body_json r of
                            None \<Rightarrow> (Inl SyntaxError, s3)
                          | Some v \<Rightarrow> (Inr v, s3)))))"

section \<open>Item cache\<close>

definition cacheGetItem :: "env \<Rightarrow> jsval \<Rightarrow> state \<Rightarrow> jsval \<times> state" where
  "cacheGetItem E ident s =
     (let key = String_js (js E) ident in
      case itemByIdCache s key of
        None \<Rightarrow> (JNull, s)
      | Some (ts, v) \<Rightarrow>
          (let (now, s1) = Date_now E s in
           if now - ts > ITEM_CACHE_TTL_MS
           then (JNull, s1\<lparr>itemByIdCache := (itemByIdCache s1)(key := None)\<rparr>)
           else (v, s1)))"

definition cacheSetItem :: "env \<Rightarrow> jsval \<Rightarrow> jsval \<Rightarrow> state \<Rightarrow> state" where
  "cacheSetItem E ident v s =
     (let (now, s1) = Date_now E s in
      s1\<lparr>itemByIdCache := (itemByIdCache s1)(String_js (js E) ident \<mapsto> (now, v))\<rparr>)"

definition itemPath :: "env \<Rightarrow> jsval \<Rightarrow> string" where
  "itemPath E ident = ''/v1/items/'' @ String_js (js E) ident"

definition fetchItemByIdCached :: "env \<Rightarrow> jsval \<Rightarrow> state \<Rightarrow> (js_error + jsval) \<times> state" where
  "fetchItemByIdCached E ident s =
     (let (cached, s1) = cacheGetItem E ident s in
      if truthy cached then (Inr cached, s1)
      else
        (case strivenFetch E (itemPath E ident) s1 of
           (Inl e, s2) \<Rightarrow> (Inl e, s2)
         | (Inr item, s2) \<Rightarrow> (Inr item, cacheSetItem E ident item s2)))"

section \<open>Batch resolution\<close>

text \<open>
  \<^verbatim>\<open>err.status\<close> and \<^verbatim>\<open>err.retryAfter\<close> of an exception: the guard's error sets both, the
  error for a failed item request sets the status and perhaps the hint, every other
  exception has neither.
\<close>

fun err_status :: "js_error \<Rightarrow> int option" where
  "err_status (RateGuardError r) = Some 429"
| "err_status (StrivenApiError st path body ra) = Some st"
| "err_status (TypeError m) = None"
| "err_status (NetworkError m) = None"
| "err_status SyntaxError = None"
| "err_status (TokenRequestFailed st body) = None"

fun err_retryAfter :: "js_error \<Rightarrow> jsnum option" where
  "err_retryAfter (RateGuardError r) = Some (Fin (real_of_int r))"
| "err_retryAfter (StrivenApiError st path body ra) = ra"
| "err_retryAfter (TypeError m) = None"
| "err_retryAfter (NetworkError m) = None"
| "err_retryAfter SyntaxError = None"
| "err_retryAfter (TokenRequestFailed st body) = None"

record priced =
  requestedItemNumber :: "string option"
  line_id :: jsval
  line_itemNumber :: jsval
  line_name :: jsval
  line_kind :: kind
  workDescription :: jsval
  line_rawTotal :: jsnum
  roundedTotal :: jsnum
  finalTotal :: jsnum
  debug_components :: "component list"

text \<open>
  An output line: the marker for an item number with no id in the mapping files, the marker
  for a failed fetch (with the requested item number or id), or the priced payload.
\<close>

datatype line =
    NoIdLine string
  | ErrorLine jsval js_error
  | PricedLine priced

datatype response =
    Ok200 "line list"
  | Item200 jsval
  | BadRequest400
  | TooMany429 js_error jsnum "line list"
  | Failed int js_error "jsnum option"

text \<open>What one run of a loop body does: go on to the next element, or answer the request.\<close>

datatype loop_outcome = Next "line list" state | Return response state



text \<open>The handlers' outer \<^verbatim>\<open>catch\<close>.\<close>

definition outerCatch :: "js_error \<Rightarrow> response" where
  "outerCatch err =
     Failed (case err_status err of Some st \<Rightarrow> (if st = 0 then 500 else st) | None \<Rightarrow> 500)
            err
            (case err_retryAfter err of
               Some n \<Rightarrow> (if truthy (JNum n) then Some n else None)
             | None \<Rightarrow> None)"

text \<open>
  The answer to a fetch that failed with status 429:
  \<^verbatim>\<open>retryAfter: err.retryAfter || getRetryAfterSeconds(), lines: results\<close>.
\<close>

definition quotaFallback :: "env \<Rightarrow> js_error \<Rightarrow> line list \<Rightarrow> state \<Rightarrow> response \<times> state" where
  "quotaFallback E err results s =
     (let (r, s1) = getRetryAfterSeconds E s in (TooMany429 err (Fin (real_of_int r)) results, s1))"

definition quotaResponse :: "env \<Rightarrow> js_error \<Rightarrow> line list \<Rightarrow> state \<Rightarrow> response \<times> state" where
  "quotaResponse E err results s =
     (case err_retryAfter err of
        Some n \<Rightarrow>
          if truthy (JNum n) then (TooMany429 err n results, s)
          else quotaFallback E err results s
      | None \<Rightarrow> quotaFallback E err results s)"

text \<open>
  Pricing and assembling the payload of a fetched item; the two handlers differ only in
  \<^verbatim>\<open>requestedItemNumber\<close>. An exception here is outside the inner \<^verbatim>\<open>try\<close>.
\<close>

definition successLine :: "builtins \<Rightarrow> string option \<Rightarrow> jsval \<Rightarrow> js_error + line" where
  "successLine B req item =
     (case calcItemRawTotal B item of
        Inl e \<Rightarrow> Inl e
      | Inr pr \<Rightarrow>
          (case getProp item ''id'' of
             Inl e \<Rightarrow> Inl e
           | Inr i \<Rightarrow>
               Inr (PricedLine
                 \<lparr> requestedItemNumber = req,
                   line_id = i,
                   line_itemNumber = lookupProp item ''itemNumber'',
                   line_name = lookupProp item ''name'',
                   line_kind = kind pr,
                   workDescription =
                     js_coalesce (lookupProp item ''description'')
                       (js_coalesce (lookupProp item ''name'') (JStr '''')),
                   line_rawTotal = rawTotal pr,
                   roundedTotal = roundUpNice B (JNum (rawTotal pr)),
                   finalTotal = roundUpNice B (JNum (rawTotal pr)),
                   debug_components = components pr \<rparr>)))"

text \<open>
  What both loop bodies do once they hold an id: fetch, answer 429 for a quota error, push
  an error line for any other failure, push the priced line otherwise.
\<close>

definition fetchAndPrice ::
  "env \<Rightarrow> jsval \<Rightarrow> jsval \<Rightarrow> string option \<Rightarrow> line list \<Rightarrow> state \<Rightarrow> loop_outcome" where
  "fetchAndPrice E ident shown req results s =
     (case fetchItemByIdCached E ident s of
        (Inl err, s1) \<Rightarrow>
          if err_status err = Some 429
          then (case quotaResponse E err results s1 of (r, s2) \<Rightarrow> Return r s2)
          else Next (results @ [ErrorLine shown err]) s1
      | (Inr item, s1) \<Rightarrow>
          (case successLine (js E) req item of
             Inl e \<Rightarrow> Return (outerCatch e) s1
           | Inr l \<Rightarrow> Next (results @ [l]) s1))"



text \<open>The body of \<^verbatim>\<open>for (const line of lines)\<close> in \<^verbatim>\<open>/api/resolve-lines\<close>.\<close>

definition byIdStep :: "env \<Rightarrow> jsval \<Rightarrow> line list \<Rightarrow> state \<Rightarrow> loop_outcome" where
  "byIdStep E entry results s =
     (case getProp entry ''id'' of
        Inl e \<Rightarrow> Return (outerCatch e) s
      | Inr raw \<Rightarrow>
          (case Number_js (js E) raw of
             Fin i \<Rightarrow> fetchAndPrice E (JNum (Fin i)) (JNum (Fin i)) None results s
           | _ \<Rightarrow> Next results s))"

text \<open>
  The \<^verbatim>\<open>for ... of\<close> loop: the elements in order, until one run of the body answers the
  request.
\<close>

fun forOf ::
  "(jsval \<Rightarrow> line list \<Rightarrow> state \<Rightarrow> loop_outcome) \<Rightarrow> jsval list \<Rightarrow> line list \<Rightarrow> state
     \<Rightarrow> loop_outcome" where
  "forOf body [] results s = Next results s"
| "forOf body (x # xs) results s =
     (case body x results s of
        Return r s1 \<Rightarrow> Return r s1
      | Next results1 s1 \<Rightarrow> forOf body xs results1 s1)"

text \<open>After the loop: \<^verbatim>\<open>res.json({ lines: results })\<close>, unless the loop has answered.\<close>

fun finish :: "loop_outcome \<Rightarrow> response \<times> state" where
  "finish (Next results s) = (Ok200 results, s)"
| "finish (Return r s) = (r, s)"

text \<open>\<^verbatim>\<open>Array.isArray(v) ? v : []\<close>\<close>

definition arrayOrEmpty :: "jsval \<Rightarrow> jsval list" where
  "arrayOrEmpty v = (case v of JArr xs \<Rightarrow> xs | _ \<Rightarrow> [])"


definition resolve_lines :: "env \<Rightarrow> jsval \<Rightarrow> state \<Rightarrow> response \<times> state" where
  "resolve_lines E body s =
     (let lines = arrayOrEmpty (optProp body ''lines'') in
      if lines = [] then (BadRequest400, s)
      else finish (forOf (byIdStep E) lines [] s))"


text \<open>
  The state when the module has been loaded, and the states the process is in between
  requests: the handlers run one after the other, on any requests.
\<close>

definition initialState :: "env \<Rightarrow> state" where
  "initialState E =
     \<lparr> ticks = 1, tokenCalls = 0, itemCalls = 0,
       windowStartMs = clock E 0, windowCount = 0,
       itemByIdCache = Map.empty, cachedToken = JNull, tokenExpiresAt = Fin 0 \<rparr>"


section \<open>Terms of the claims about pricing\<close>






section \<open>Terms of the claims about the rate guard\<close>




section \<open>Terms of the claims about the caches\<close>

text \<open>
  What \<^verbatim>\<open>fetchItemByIdCached\<close> does after a miss: the guarded upstream call and, when it
  succeeds, the filling of the cache.
\<close>

definition fetchFresh :: "env \<Rightarrow> jsval \<Rightarrow> state \<Rightarrow> (js_error + jsval) \<times> state" where
  "fetchFresh E ident s =
     (case strivenFetch E (itemPath E ident) s of
        (Inl e, s2) \<Rightarrow> (Inl e, s2)
      | (Inr item, s2) \<Rightarrow> (Inr item, cacheSetItem E ident item s2))"

text \<open>The calls made to the upstream system so far, to either endpoint.\<close>

definition upstreamCalls :: "state \<Rightarrow> nat" where
  "upstreamCalls s = tokenCalls s + itemCalls s"



section \<open>Terms of the claims about batches\<close>



text \<open>The lines of a response, and whether it is the answer 200 with the lines.\<close>

fun response_lines :: "response \<Rightarrow> line list" where
  "response_lines (Ok200 ls) = ls"
| "response_lines (TooMany429 err ra ls) = ls"
| "response_lines (Item200 v) = []"
| "response_lines BadRequest400 = []"
| "response_lines (Failed st err ra) = []"

fun isOk200 :: "response \<Rightarrow> bool" where
  "isOk200 (Ok200 ls) = True"
| "isOk200 (TooMany429 err ra ls) = False"
| "isOk200 (Item200 v) = False"
| "isOk200 BadRequest400 = False"
| "isOk200 (Failed st err ra) = False"

text \<open>
  An input line of \<^verbatim>\<open>/api/resolve-lines\<close> whose \<^verbatim>\<open>id\<close> coerces to a finite number: the
  lines that pass \<^verbatim>\<open>if (!Number.isFinite(id)) continue;\<close>.
\<close>

definition idFinite :: "env \<Rightarrow> jsval \<Rightarrow> bool" where
  "idFinite E x =
     (case getProp x ''id'' of
        Inl e \<Rightarrow> False
      | Inr raw \<Rightarrow> (case Number_js (js E) raw of Fin i \<Rightarrow> True | _ \<Rightarrow> False))"

text \<open>
  The record that a batch by id owes the input line with the finite id \<open>i\<close>, given the
  outcome of the cached fetch for \<open>i\<close>: the error marker with that id and the error of the
  fetch, or the priced payload of the fetched item. There is none for an item whose pricing
  raises.
\<close>

definition owedRecord :: "env \<Rightarrow> real \<Rightarrow> js_error + jsval \<Rightarrow> line list" where
  "owedRecord E i res =
     (case res of
        Inl err \<Rightarrow> [ErrorLine (JNum (Fin i)) err]
      | Inr item \<Rightarrow> (case successLine (js E) None item of Inl e \<Rightarrow> [] | Inr l \<Rightarrow> [l]))"

text \<open>
  The records that a batch by id owes its input lines, one after the other from the state
  \<open>s\<close>: a line whose \<^verbatim>\<open>id\<close> does not coerce to a finite number has none, and each other
  line has the record for the cached fetch of its id, made in the state that the fetches for
  the lines before it have left.
\<close>

fun owedRecords :: "env \<Rightarrow> jsval list \<Rightarrow> state \<Rightarrow> line list" where
  "owedRecords E [] s = []"
| "owedRecords E (x # xs) s =
     (case Number_js (js E) (lookupProp x ''id'') of
        Fin i \<Rightarrow>
          (case fetchItemByIdCached E (JNum (Fin i)) s of
             (res, s1) \<Rightarrow> owedRecord E i res @ owedRecords E xs s1)
      | _ \<Rightarrow> owedRecords E xs s)"

section \<open>A concrete environment for examples\<close>

text \<open>
  Examples need values for the three operations that the model leaves open. Here printing
  writes a natural number in decimal and answers the empty string for every other value,
  parsing answers \<^verbatim>\<open>NaN\<close>, and trimming strips the white space of ASCII, which is what
  \<^verbatim>\<open>trim\<close> does on the strings of the examples. No counterexample below consults any of
  them.
\<close>

function showNat :: "nat \<Rightarrow> string" where
  "showNat n = (if n < 10 then [char_of (48 + n)] else showNat (n div 10) @ [char_of (48 + n mod 10)])"
  by pat_completeness auto
termination
  by (relation "measure (\<lambda>n. n)") auto

definition isSpace :: "char \<Rightarrow> bool" where
  "isSpace c = ((of_char c :: nat) \<in> {9, 10, 11, 12, 13, 32})"

definition trim :: "string \<Rightarrow> string" where
  "trim s = rev (dropWhile isSpace (rev (dropWhile isSpace s)))"

definition plainBuiltins :: builtins where
  "plainBuiltins =
     \<lparr> StringToNumber = (\<lambda>s. NaN),
       ToString = (\<lambda>v. case v of
                      JNum (Fin r) \<Rightarrow>
                        if 0 \<le> r \<and> r = of_int \<lfloor>r\<rfloor> then showNat (nat \<lfloor>r\<rfloor>) else []
                    | _ \<Rightarrow> []),
       Trim = trim \<rparr>"




definition plainItem :: jsval where
  "plainItem = JObj [(''itemType'', JObj [(''name'', JStr ''Part'')]), (''price'', JNum (Fin 12))]"

text \<open>
  An environment with a quota of two calls per minute. The clock advances one second per
  reading for the first nine readings and then stands at 700 seconds; the token endpoint
  grants a token for an hour; the item endpoint answers every request with the plain item;
  the number map holds the two keys \<^verbatim>\<open>A-1\<close> and \<^verbatim>\<open>B-2\<close>.
\<close>

definition demoEnv :: env where
  "demoEnv =
     \<lparr> js = plainBuiltins,
       clock = (\<lambda>n. if n < 9 then 1000 * int n else 700000),
       tokenEndpoint = (\<lambda>n. Responded
          \<lparr> res_status = 200, body_text = [],
            body_json = Some (JObj [(''access_token'', JStr ''tok''),
                                    (''expires_in'', JNum (Fin 3600))]),
            retry_after_header = None \<rparr>),
       itemEndpoint = (\<lambda>n path token. Responded
          \<lparr> res_status = 200, body_text = [], body_json = Some plainItem,
            retry_after_header = None \<rparr>),
       STRIVEN_MAX_CALLS_PER_MIN = Fin 2,
       itemNumberToId =
         Some (\<lambda>k. if k = ''A-1'' then JStr ''7'' else if k = ''B-2'' then JStr ''8''
                    else JUndefined),
       itemNameToIdMissingNumber = Some (\<lambda>k. JUndefined) \<rparr>"

text \<open>
  A state of \<open>demoEnv\<close> late in time: the clock stands at 700 seconds, the window started at
  690 seconds and has counted \<open>n\<close> calls.
\<close>

definition lateWindow :: "int \<Rightarrow> state" where
  "lateWindow n =
     (initialState demoEnv)\<lparr>ticks := 9, windowStartMs := 690000, windowCount := n\<rparr>"

text \<open>
  The initial state with one cache entry, stored at time 0 under the key 7; the state that
  holds the token of \<open>demoEnv\<close> after its first exchange; an environment whose token endpoint
  refuses; and one whose tokens live for 100 seconds.
\<close>

definition withCached :: "jsval \<Rightarrow> state" where
  "withCached v = (initialState demoEnv)\<lparr>itemByIdCache := [''7'' \<mapsto> (0, v)]\<rparr>"


definition tokenDownEnv :: env where
  "tokenDownEnv =
     demoEnv\<lparr>tokenEndpoint := (\<lambda>n. Responded
        \<lparr> res_status = 401, body_text = ''denied'', body_json = None,
          retry_after_header = None \<rparr>)\<rparr>"



definition idLine :: "real \<Rightarrow> jsval" where
  "idLine i = JObj [(''id'', JNum (Fin i))]"





text \<open>
  The state of \<open>demoEnv\<close> late in time whose window is full and whose cache holds the plain
  item under the key 7, stored at time 0, more than ten minutes before.
\<close>

definition staleFull :: state where
  "staleFull = (lateWindow 2)\<lparr>itemByIdCache := [''7'' \<mapsto> (0, plainItem)]\<rparr>"

text \<open>
  The initial state of \<open>demoEnv\<close> whose window is full and whose cache holds \<^verbatim>\<open>null\<close>
  under the key 7, stored at time 0.
\<close>

definition falsyFull :: state where
  "falsyFull = (withCached JNull)\<lparr>windowCount := 2\<rparr>"

section \<open>Rounding\<close>

lemma of_int_le_pow2: "(k::int) \<le> 2 ^ n \<Longrightarrow> (of_int k :: real) \<le> 2 ^ n"
proof -
  assume "k \<le> 2 ^ n"
  then have "(of_int k :: real) \<le> of_int (2 ^ n)" by (simp only: of_int_le_iff)
  then show ?thesis by simp
qed

lemma pow2_le_of_int: "2 ^ n \<le> (k::int) \<Longrightarrow> (2::real) ^ n \<le> of_int k"
proof -
  assume "2 ^ n \<le> k"
  then have "(of_int (2 ^ n) :: real) \<le> of_int k" by (simp only: of_int_le_iff)
  then show ?thesis by simp
qed

lemma powi_nat: "0 \<le> k \<Longrightarrow> (2::real) powi k = 2 ^ nat k"
  by (simp add: power_int_def)

lemma powi_neg: "0 \<le> k \<Longrightarrow> (2::real) powi (- k) = 1 / 2 ^ nat k"
  by (simp add: power_int_minus field_simps powi_nat)

lemma expo_bounds:
  assumes "y \<noteq> 0"
  shows "2 powi (expo y) \<le> \<bar>y\<bar> \<and> \<bar>y\<bar> < 2 powi (expo y + 1)"
proof (cases "1 \<le> \<bar>y\<bar>")
  case True
  let ?m = "\<lfloor>\<bar>y\<bar>\<rfloor>"
  have m: "0 < ?m" using True by simp
  have b: "1 \<le> bitlen ?m" using m by (simp add: bitlen_alt_def)
  from bitlen_bounds [OF m]
  have lo: "2 ^ nat (bitlen ?m - 1) \<le> ?m" and hi: "?m < 2 ^ nat (bitlen ?m)" by simp_all
  have "(2::real) ^ nat (bitlen ?m - 1) \<le> of_int ?m" using lo by (rule pow2_le_of_int)
  also have "\<dots> \<le> \<bar>y\<bar>" by simp
  finally have l: "(2::real) powi (bitlen ?m - 1) \<le> \<bar>y\<bar>" using b by (simp add: powi_nat)
  have "?m + 1 \<le> 2 ^ nat (bitlen ?m)" using hi by simp
  then have "of_int (?m + 1) \<le> (2::real) ^ nat (bitlen ?m)" by (rule of_int_le_pow2)
  moreover have "\<bar>y\<bar> < of_int (?m + 1)" by linarith
  moreover have "(2::real) powi (bitlen ?m) = 2 ^ nat (bitlen ?m)" using b by (simp add: powi_nat)
  ultimately have h: "\<bar>y\<bar> < (2::real) powi (bitlen ?m)" by linarith
  have e: "expo y = bitlen ?m - 1" using True by (simp add: expo_def)
  show ?thesis unfolding e using l h by simp
next
  case False
  define t where "t = 1 / \<bar>y\<bar>"
  define n where "n = \<lceil>t\<rceil> - 1"
  define k where "k = bitlen n"
  have y: "0 < \<bar>y\<bar>" "\<bar>y\<bar> < 1" using assms False by simp_all
  have t: "1 < t" using y by (simp add: t_def)
  have n: "0 < n" using t by (simp add: n_def less_ceiling_iff)
  have b: "1 \<le> k" using n by (simp add: k_def bitlen_alt_def)
  from bitlen_bounds [OF n]
  have lo: "2 ^ nat (k - 1) \<le> n" and hi: "n + 1 \<le> 2 ^ nat k" by (simp_all add: k_def)
  have "t \<le> of_int (n + 1)" by (simp add: n_def)
  also have "of_int (n + 1) \<le> (2::real) ^ nat k" using hi by (rule of_int_le_pow2)
  finally have tl: "t \<le> (2::real) ^ nat k" .
  have yt: "\<bar>y\<bar> = 1 / t" by (simp add: t_def)
  have "1 / (2::real) ^ nat k \<le> 1 / t" using tl t by (intro divide_left_mono) simp_all
  then have l: "1 / 2 ^ nat k \<le> \<bar>y\<bar>" by (simp only: yt)
  have "(2::real) ^ nat (k - 1) \<le> of_int n" using lo by (rule pow2_le_of_int)
  also have "of_int n < t" unfolding n_def by linarith
  finally have th: "(2::real) ^ nat (k - 1) < t" .
  have "1 / t < 1 / (2::real) ^ nat (k - 1)" using th t by (intro divide_strict_left_mono) simp_all
  then have h: "\<bar>y\<bar> < 1 / 2 ^ nat (k - 1)" by (simp only: yt)
  have e: "expo y = - k" using False assms by (simp add: expo_def k_def n_def t_def)
  have p1: "(2::real) powi (- k) = 1 / 2 ^ nat k" using b by (simp add: powi_neg)
  have "(2::real) powi (- k + 1) = 2 powi (- (k - 1))" by simp
  also have "\<dots> = 1 / 2 ^ nat (k - 1)" using b by (intro powi_neg) simp
  finally have p2: "(2::real) powi (- k + 1) = 1 / 2 ^ nat (k - 1)" .
  show ?thesis unfolding e p1 p2 using l h by simp
qed

lemma expo_unique:
  assumes "2 powi e \<le> \<bar>y\<bar>" and "\<bar>y\<bar> < 2 powi (e + 1)"
  shows "expo y = e"
proof -
  have "(0::real) < 2 powi e" by simp
  then have "0 < \<bar>y\<bar>" using assms(1) by linarith
  then have y: "y \<noteq> 0" by simp
  from expo_bounds [OF y] have b: "2 powi (expo y) \<le> \<bar>y\<bar>" "\<bar>y\<bar> < 2 powi (expo y + 1)" by simp_all
  have 1: "e < expo y + 1"
  proof (rule ccontr)
    assume "\<not> e < expo y + 1"
    then have "(2::real) powi (expo y + 1) \<le> 2 powi e" by (intro power_int_increasing) simp_all
    then show False using assms(1) b(2) by linarith
  qed
  have 2: "expo y < e + 1"
  proof (rule ccontr)
    assume "\<not> expo y < e + 1"
    then have "(2::real) powi (e + 1) \<le> 2 powi (expo y)" by (intro power_int_increasing) simp_all
    then show False using assms(2) b(1) by linarith
  qed
  from 1 2 show ?thesis by simp
qed

lemma rne_of_int: "rne (of_int n) = n"
  by (simp add: rne_def)

lemma rne_le: "t \<le> of_int N \<Longrightarrow> rne t \<le> N"
proof -
  assume a: "t \<le> of_int N"
  have f: "\<lfloor>t\<rfloor> \<le> N" using a by (simp add: floor_le_iff)
  show ?thesis
  proof (cases "\<lfloor>t\<rfloor> = N")
    case True
    then have "t - of_int \<lfloor>t\<rfloor> \<le> 0" using a by simp
    then show ?thesis using True by (simp add: rne_def Let_def)
  next
    case False
    then have "\<lfloor>t\<rfloor> + 1 \<le> N" using f by simp
    then show ?thesis by (simp add: rne_def Let_def)
  qed
qed

lemma rne_gt: "of_int Q + 1 / 2 < t \<Longrightarrow> Q + 1 \<le> rne t"
proof -
  assume a: "of_int Q + 1 / 2 < t"
  have "of_int Q \<le> t" using a by simp
  then have f: "Q \<le> \<lfloor>t\<rfloor>" by (simp add: le_floor_iff)
  show ?thesis
  proof (cases "\<lfloor>t\<rfloor> = Q")
    case True
    then have "1 / 2 < t - of_int \<lfloor>t\<rfloor>" using a by simp
    then show ?thesis using True by (simp add: rne_def Let_def)
  next
    case False
    then have "Q + 1 \<le> \<lfloor>t\<rfloor>" using f by simp
    then show ?thesis by (simp add: rne_def Let_def)
  qed
qed

lemma expo_range:
  assumes "1 \<le> y" and "y < 2 ^ 53"
  shows "0 \<le> expo y \<and> expo y \<le> 52"
proof -
  have y: "y \<noteq> 0" "\<bar>y\<bar> = y" using assms by simp_all
  from expo_bounds [OF y(1)]
  have b: "2 powi (expo y) \<le> y" "y < 2 powi (expo y + 1)" by (simp_all add: y)
  have 1: "0 \<le> expo y"
  proof (rule ccontr)
    assume "\<not> 0 \<le> expo y"
    then have "(2::real) powi (expo y + 1) \<le> 2 powi 0" by (intro power_int_increasing) simp_all
    then show False using b(2) assms(1) by simp
  qed
  have 2: "expo y \<le> 52"
  proof (rule ccontr)
    assume "\<not> expo y \<le> 52"
    then have "(2::real) powi 53 \<le> 2 powi (expo y)" by (intro power_int_increasing) simp_all
    moreover have "(2::real) powi 53 = 2 ^ 53" by (simp add: power_int_def)
    ultimately show False using b(1) assms(2) by linarith
  qed
  from 1 2 show ?thesis by simp
qed

lemma ulp_mid:
  assumes "1 \<le> y" and "y < 2 ^ 53"
  shows "ulp y = 2 powi (expo y - 52)" and "ulp y = 1 / 2 ^ nat (52 - expo y)"
proof -
  from expo_range [OF assms] have r: "0 \<le> expo y" "expo y \<le> 52" by simp_all
  show 1: "ulp y = 2 powi (expo y - 52)" using r by (simp add: ulp_def max_def)
  have "(2::real) powi (expo y - 52) = 2 powi (- (52 - expo y))" by simp
  also have "\<dots> = 1 / 2 ^ nat (52 - expo y)" using r by (intro powi_neg) simp
  finally show "ulp y = 1 / 2 ^ nat (52 - expo y)" using 1 by simp
qed

lemma flr_le_int:
  assumes "1 \<le> y" and "y < 2 ^ 53" and "y \<le> of_int n"
  shows "flr y \<le> of_int n"
proof -
  define j where "j = nat (52 - expo y)"
  have u: "ulp y = 1 / 2 ^ j" using ulp_mid(2) [OF assms(1,2)] by (simp add: j_def)
  have "y * 2 ^ j \<le> of_int n * 2 ^ j" using assms(3) by (intro mult_right_mono) simp_all
  then have "y / ulp y \<le> of_int (n * 2 ^ j)" by (simp add: u)
  then have "rne (y / ulp y) \<le> n * 2 ^ j" by (rule rne_le)
  then have "(of_int (rne (y / ulp y)) :: real) \<le> of_int (n * 2 ^ j)" by (simp only: of_int_le_iff)
  then have "of_int (rne (y / ulp y)) / 2 ^ j \<le> (of_int (n * 2 ^ j) :: real) / 2 ^ j"
    by (intro divide_right_mono) simp_all
  then show ?thesis by (simp add: flr_def u)
qed

lemma flr_gt_int:
  assumes "1 \<le> y" and "y < 2 ^ 53" and "of_int q + ulp y / 2 < y"
  shows "of_int q < flr y"
proof -
  define j where "j = nat (52 - expo y)"
  have u: "ulp y = 1 / 2 ^ j" using ulp_mid(2) [OF assms(1,2)] by (simp add: j_def)
  have "(of_int q + ulp y / 2) * 2 ^ j < y * 2 ^ j" using assms(3) by (intro mult_strict_right_mono) simp_all
  then have "of_int (q * 2 ^ j) + 1 / 2 < y / ulp y" by (simp add: u algebra_simps)
  then have "q * 2 ^ j + 1 \<le> rne (y / ulp y)" by (rule rne_gt)
  then have "(of_int (q * 2 ^ j + 1) :: real) \<le> of_int (rne (y / ulp y))" by (simp only: of_int_le_iff)
  then have "(of_int (q * 2 ^ j + 1) :: real) / 2 ^ j \<le> of_int (rne (y / ulp y)) / 2 ^ j"
    by (intro divide_right_mono) simp_all
  then have "of_int q + 1 / 2 ^ j \<le> flr y" by (simp add: flr_def u add_divide_distrib)
  moreover have "(0::real) < 1 / 2 ^ j" by simp
  ultimately show ?thesis by linarith
qed

lemma ceiling_flr:
  assumes "1 \<le> y" and "y < 2 ^ 53" and "of_int (\<lceil>y\<rceil> - 1) + ulp y / 2 < y"
  shows "\<lceil>flr y\<rceil> = \<lceil>y\<rceil>"
proof (rule ceiling_unique)
  show "of_int \<lceil>y\<rceil> - 1 < flr y" using flr_gt_int [OF assms] by simp
  show "flr y \<le> of_int \<lceil>y\<rceil>" using assms(1,2) by (intro flr_le_int) simp_all
qed

lemma flr_of_int:
  assumes "1 \<le> n" and "n < 2 ^ 53"
  shows "flr (of_int n) = of_int n"
proof -
  define y :: real where "y = of_int n"
  define j where "j = nat (52 - expo y)"
  have y1: "1 \<le> y" using assms(1) by (simp add: y_def)
  have "(of_int n :: real) < of_int (2 ^ 53)" using assms(2) by (simp only: of_int_less_iff)
  then have y2: "y < 2 ^ 53" by (simp add: y_def)
  have u: "ulp y = 1 / 2 ^ j" using ulp_mid(2) [OF y1 y2] by (simp add: j_def)
  have "y / ulp y = of_int (n * 2 ^ j)" unfolding u by (simp add: y_def)
  then have "rne (y / ulp y) = n * 2 ^ j" by (simp only: rne_of_int)
  then have "flr y = of_int (n * 2 ^ j) * ulp y" by (simp add: flr_def)
  also have "\<dots> = y" unfolding u by (simp add: y_def)
  finally show ?thesis by (simp add: y_def)
qed

lemma fl_of_int:
  assumes "0 \<le> n" and "n < 2 ^ 53"
  shows "fl (of_int n) = Fin (of_int n)"
proof (cases "n = 0")
  case True
  have "expo 0 = 0" by (simp add: expo_def)
  then show ?thesis using True by (simp add: fl_def flr_def rne_def)
next
  case False
  then have n: "1 \<le> n" using assms(1) by simp
  have f: "flr (of_int n) = of_int n" using n assms(2) by (rule flr_of_int)
  have "(of_int n :: real) < of_int (2 ^ 53)" using assms(2) by (simp only: of_int_less_iff)
  then have "(of_int n :: real) < 2 ^ 53" by simp
  moreover have "(1::real) \<le> of_int n" using n by simp
  ultimately have "expo (of_int n) \<le> 52" using expo_range by blast
  then show ?thesis by (simp add: fl_def f)
qed

lemma double_grid:
  assumes "isDouble x" and "1 \<le> x" and "x < 2 ^ 53" and "of_int N < x"
  shows "of_int N + ulp x \<le> x"
proof -
  define j where "j = nat (52 - expo x)"
  define M where "M = rne (x / ulp x)"
  have u: "ulp x = 1 / 2 ^ j" using ulp_mid(2) [OF assms(2,3)] by (simp add: j_def)
  have "flr x = x" using assms(1) by (simp add: isDouble_def fl_def Let_def split: if_splits)
  then have x: "x = of_int M / 2 ^ j" by (simp add: flr_def u M_def)
  have "of_int N * 2 ^ j < x * 2 ^ j" using assms(4) by (intro mult_strict_right_mono) simp_all
  then have "(of_int (N * 2 ^ j) :: real) < of_int M" by (simp add: x)
  then have "N * 2 ^ j < M" by (simp only: of_int_less_iff)
  then have "N * 2 ^ j + 1 \<le> M" by simp
  then have "(of_int (N * 2 ^ j + 1) :: real) \<le> of_int M" by (simp only: of_int_le_iff)
  then have "(of_int (N * 2 ^ j + 1) :: real) / 2 ^ j \<le> of_int M / 2 ^ j"
    by (intro divide_right_mono) simp_all
  then have "of_int N + 1 / 2 ^ j \<le> x" by (simp add: x [symmetric] add_divide_distrib)
  then show ?thesis by (simp add: u)
qed

lemma ceiling_quotient:
  assumes d: "isDouble x" and s: "1 \<le> S" and xs: "of_int S \<le> x" and x53: "x < 2 ^ 53"
  shows "\<lceil>flr (x / of_int S)\<rceil> = \<lceil>x / of_int S\<rceil>"
proof -
  define s :: real where "s = of_int S"
  define y where "y = x / s"
  define q where "q = \<lceil>y\<rceil> - 1"
  have s1: "1 \<le> s" using s by (simp add: s_def)
  have x1: "1 \<le> x" using xs s1 by (simp add: s_def)
  have y1: "1 \<le> y" using xs s1 by (simp add: y_def s_def)
  have yx: "y \<le> x" using s1 x1 by (simp add: y_def field_simps mult_le_cancel_left1)
  have y53: "y < 2 ^ 53" using yx x53 by linarith
  have xy: "x = s * y" using s1 by (simp add: y_def)
  have "of_int q < y" unfolding q_def by linarith
  then have "s * of_int q < s * y" using s1 by (intro mult_strict_left_mono) simp_all
  then have "of_int (S * q) < x" by (simp add: xy s_def)
  from double_grid [OF d x1 x53 this] have g: "s * of_int q + ulp x \<le> s * y" by (simp add: xy s_def)
  have ux: "ulp x = 2 powi (expo x - 52)" using x1 x53 by (rule ulp_mid(1))
  have uy: "ulp y = 2 powi (expo y - 52)" using y1 y53 by (rule ulp_mid(1))
  have bx: "x < 2 powi (expo x + 1)" using expo_bounds [of x] x1 by simp
  have by': "2 powi (expo y) \<le> y" using expo_bounds [of y] y1 by simp
  have "s * 2 powi (expo y) \<le> s * y" using by' s1 by (intro mult_left_mono) simp_all
  then have "s * 2 powi (expo y) < 2 powi (expo x + 1)" using bx xy by linarith
  then have "s * 2 powi (expo y) * 2 powi (- 52) < 2 powi (expo x + 1) * 2 powi (- 52)"
    by (intro mult_strict_right_mono) simp_all
  moreover have "(2::real) powi (expo y) * 2 powi (- 52) = 2 powi (expo y - 52)"
    using power_int_add [of "2::real" "expo y" "- 52"] by simp
  moreover have "(2::real) powi (expo x + 1) * 2 powi (- 52) = 2 * 2 powi (expo x - 52)"
    using power_int_add [of "2::real" "expo x - 52" "1"] power_int_add [of "2::real" "expo x + 1" "- 52"]
    by simp
  ultimately have "s * ulp y < 2 * ulp x" by (simp add: ux uy mult.assoc)
  then have "s * (of_int q + ulp y / 2) < s * of_int q + ulp x" by (simp add: algebra_simps)
  then have "s * (of_int q + ulp y / 2) < s * y" using g by linarith
  then have "of_int q + ulp y / 2 < y" using s1 by (simp add: mult_less_cancel_left_pos)
  then have "\<lceil>flr y\<rceil> = \<lceil>y\<rceil>" using y1 y53 unfolding q_def by (intro ceiling_flr)
  then show ?thesis by (simp add: y_def s_def)
qed

lemma double_flr: "isDouble x \<Longrightarrow> flr x = x"
  by (simp add: isDouble_def fl_def Let_def split: if_splits)


lemma niceStep_spec: "0 < x \<Longrightarrow> niceStep x = spec_step x"
  by (simp add: niceStep_def spec_step_def)

lemma niceStep_int:
  "\<exists>S. niceStep x = of_int S \<and> 1 \<le> S \<and> S \<le> 100 \<and> (S = 1 \<or> of_int S \<le> x)"
proof -
  consider "x < 10" | "x \<ge> 10 \<and> x < 100" | "x \<ge> 100 \<and> x \<le> 500" | "x > 500 \<and> x \<le> 1000"
    | "x > 1000" by linarith
  then show ?thesis
  proof cases
    case 1
    then show ?thesis by (intro exI [of _ 1]) (simp add: niceStep_def)
  next
    case 2
    then show ?thesis by (intro exI [of _ 5]) (simp add: niceStep_def)
  next
    case 3
    then show ?thesis by (intro exI [of _ 20]) (simp add: niceStep_def)
  next
    case 4
    then show ?thesis by (intro exI [of _ 50]) (simp add: niceStep_def)
  next
    case 5
    then show ?thesis by (intro exI [of _ 100]) (simp add: niceStep_def)
  qed
qed

lemma toNumber_Fin: "toNumber B (JNum (Fin x)) = x"
  by (simp add: toNumber_def Number_js_def)


lemma ceil_mult_less: "0 < (s::real) \<Longrightarrow> of_int \<lceil>x / s\<rceil> * s - s < x"
proof -
  assume s: "0 < s"
  have "of_int \<lceil>x / s\<rceil> - 1 < x / s" by linarith
  then have "(of_int \<lceil>x / s\<rceil> - 1) * s < x"
    by (rule pos_less_divide_eq [OF s, THEN iffD1])
  then show ?thesis by (simp add: algebra_simps)
qed

text \<open>
  On a double between 0 and \<open>2 ^ 53 - 100\<close> neither rounding of \<^verbatim>\<open>roundUpNice\<close> loses
  anything: the quotient rounds to a double with the same ceiling, and the product is an
  integer below \<open>2 ^ 53\<close>.
\<close>

lemma roundUpNice_exact:
  assumes d: "isDouble x" and pos: "0 < x" and le: "x \<le> 2 ^ 53 - 100"
  shows "roundUpNice B (JNum (Fin x)) = Fin (of_int \<lceil>x / niceStep x\<rceil> * niceStep x)"
proof -
  from niceStep_int [of x] obtain S where
    S: "niceStep x = of_int S" "1 \<le> S" "S \<le> 100" "S = 1 \<or> of_int S \<le> x" by blast
  have x53: "x < 2 ^ 53" using le by simp
  have c: "\<lceil>flr (x / of_int S)\<rceil> = \<lceil>x / of_int S\<rceil>"
  proof (cases "S = 1")
    case True
    then show ?thesis using double_flr [OF d] by simp
  next
    case False
    then have "of_int S \<le> x" using S(4) by simp
    then show ?thesis using d S(2) x53 by (intro ceiling_quotient)
  qed
  define k where "k = \<lceil>x / of_int S\<rceil>"
  have s0: "(0::real) < of_int S" using S(2) by simp
  have "0 < x / of_int S" using pos s0 by simp
  then have k1: "1 \<le> k" unfolding k_def by (simp add: ceiling_le_iff le_ceiling_iff)
  have "of_int k * of_int S - of_int S < x" unfolding k_def by (rule ceil_mult_less [OF s0])
  moreover have "(of_int S :: real) \<le> 100" using S(3) by simp
  ultimately have "(of_int (k * S) :: real) < 2 ^ 53" using le by simp
  then have "(of_int (k * S) :: real) < of_int (2 ^ 53)" by simp
  then have lt: "k * S < 2 ^ 53" by (simp only: of_int_less_iff)
  have ge: "0 \<le> k * S" using k1 S(2) by simp
  have "fl (of_int (k * S)) = Fin (of_int (k * S))" using ge lt by (rule fl_of_int)
  then have "fl (of_int k * of_int S) = Fin (of_int k * of_int S)" by simp
  then show ?thesis using pos c
    by (simp add: roundUpNice_def toNumber_Fin S(1) k_def Let_def)
qed

text \<open>
  C1, as the claim states it, fails on large inputs. \<open>2 ^ 59\<close> is a double above 1000; the
  formula of the claim gives \<open>576460752303423500\<close>, which is no double, and the code
  returns the double next to it, \<open>576460752303423488\<close>.
\<close>

theorem roundUpNice_misses_formula_at_2_59:
  "isDouble (2 ^ 59)
   \<and> roundUpNice plainBuiltins (JNum (Fin (2 ^ 59))) = Fin 576460752303423488
   \<and> of_int \<lceil>2 ^ 59 / spec_step (2 ^ 59)\<rceil> * spec_step (2 ^ 59) = (576460752303423500 :: real)"
  by code_simp

text \<open>
  C1, amended. On every double \<open>x\<close> up to \<open>2 ^ 53 - 100\<close> the rounding returns 0 when
  \<open>x \<le> 0\<close> and otherwise \<open>ceiling (x / step) * step\<close>, with the step of the specification's
  tiers: 1 on \<open>[0,10)\<close>, 5 on \<open>[10,100)\<close>, 20 on \<open>[100,500]\<close>, 50 on \<open>(500,1000]\<close>, 100
  above 1000. At the boundaries the code's own chain of tests picks step 5 for 10, 20 for
  100, 20 for 500 and 50 for 1000.
\<close>

theorem roundUpNice_follows_tiers:
  assumes "isDouble x" and "x \<le> 2 ^ 53 - 100"
  shows "roundUpNice B (JNum (Fin x)) =
           Fin (if x \<le> 0 then 0 else of_int \<lceil>x / spec_step x\<rceil> * spec_step x)
       \<and> niceStep 10 = 5 \<and> niceStep 100 = 20 \<and> niceStep 500 = 20 \<and> niceStep 1000 = 50"
proof -
  have "roundUpNice B (JNum (Fin x)) =
          Fin (if x \<le> 0 then 0 else of_int \<lceil>x / spec_step x\<rceil> * spec_step x)"
  proof (cases "x \<le> 0")
    case True
    then show ?thesis by (simp add: roundUpNice_def toNumber_Fin)
  next
    case False
    then have pos: "0 < x" by simp
    show ?thesis using roundUpNice_exact [OF assms(1) pos assms(2)] pos
      by (simp add: niceStep_spec)
  qed
  moreover have "niceStep 10 = 5 \<and> niceStep 100 = 20 \<and> niceStep 500 = 20 \<and> niceStep 1000 = 50"
    by (simp add: niceStep_def)
  ultimately show ?thesis by blast
qed

theorem roundUpNice_follows_tiers_witness:
  "isDouble (2469 / 2) \<and> (2469 / 2 :: real) \<le> 2 ^ 53 - 100
   \<and> roundUpNice plainBuiltins (JNum (Fin (2469 / 2))) = Fin 1300"
proof -
  have d: "isDouble (2469 / 2)" by code_simp
  have b: "(2469 / 2 :: real) \<le> 2 ^ 53 - 100" by simp
  have f: "(if (2469 / 2 :: real) \<le> 0 then 0
            else of_int \<lceil>(2469 / 2) / spec_step (2469 / 2)\<rceil> * spec_step (2469 / 2)) = (1300 :: real)"
    by code_simp
  from roundUpNice_follows_tiers [OF d b, of plainBuiltins] show ?thesis using d b f by simp
qed




section \<open>Pricing of items and groups\<close>












section \<open>Rate guard\<close>

lemma reset_eq:
  "rateWindowResetIfNeeded E s =
     (if clock E (ticks s) - windowStartMs s \<ge> 60000
      then s\<lparr>ticks := Suc (ticks s), windowStartMs := clock E (ticks s), windowCount := 0\<rparr>
      else s\<lparr>ticks := Suc (ticks s)\<rparr>)"
  by (simp add: rateWindowResetIfNeeded_def Date_now_def)













lemma token_window:
  "windowCount (snd (getAccessToken E s)) = windowCount s
   \<and> windowStartMs (snd (getAccessToken E s)) = windowStartMs s"
  by (simp add: getAccessToken_def Date_now_def Let_def split_def
      split: fetch_result.splits option.splits sum.splits)



lemma cacheGet_window:
  "windowCount (snd (cacheGetItem E i s)) = windowCount s
   \<and> windowStartMs (snd (cacheGetItem E i s)) = windowStartMs s"
  by (simp add: cacheGetItem_def Date_now_def Let_def split: option.splits prod.splits)

lemma cacheSet_window:
  "windowCount (cacheSetItem E i v s) = windowCount s
   \<and> windowStartMs (cacheSetItem E i v s) = windowStartMs s"
  by (simp add: cacheSetItem_def Date_now_def)












lemma lateWindow_facts:
  "clock demoEnv (Suc (ticks (lateWindow n))) = clock demoEnv (ticks (lateWindow n))"
  "clock demoEnv (ticks (lateWindow n)) = 700000"
  "windowStartMs (lateWindow n) = 690000"
  "windowCount (lateWindow n) = n"
  by (simp_all add: lateWindow_def demoEnv_def)


section \<open>Item cache, token cache and quota\<close>

lemma cacheSet_entry:
  "itemByIdCache (cacheSetItem E i v s) =
     (itemByIdCache s)(String_js (js E) i \<mapsto> (clock E (ticks s), v))"
  by (simp add: cacheSetItem_def Date_now_def)

lemma cacheGet_fresh:
  assumes "itemByIdCache s (String_js (js E) i) = Some (t, v)"
      and "clock E (ticks s) - t \<le> ITEM_CACHE_TTL_MS"
  shows "cacheGetItem E i s = (v, s\<lparr>ticks := Suc (ticks s)\<rparr>)"
  using assms by (simp add: cacheGetItem_def Date_now_def)

lemma cacheGet_stale:
  assumes "itemByIdCache s (String_js (js E) i) = Some (t, v)"
      and "clock E (ticks s) - t > ITEM_CACHE_TTL_MS"
  shows "cacheGetItem E i s =
           (JNull, s\<lparr>ticks := Suc (ticks s),
                     itemByIdCache := (itemByIdCache s)(String_js (js E) i := None)\<rparr>)"
  using assms by (simp add: cacheGetItem_def Date_now_def)

lemma cacheGet_absent:
  assumes "itemByIdCache s (String_js (js E) i) = None"
  shows "cacheGetItem E i s = (JNull, s)"
  using assms by (simp add: cacheGetItem_def)

lemma fetch_unfold:
  "fetchItemByIdCached E i s =
     (case cacheGetItem E i s of
        (cached, s1) \<Rightarrow> if truthy cached then (Inr cached, s1) else fetchFresh E i s1)"
  by (simp add: fetchItemByIdCached_def fetchFresh_def split: prod.splits)

lemma JNull_falsy: "\<not> truthy JNull"
  by (simp add: truthy_def)

lemma admit_frame:
  "tokenCalls (snd (admitStrivenCall E s)) = tokenCalls s
   \<and> itemCalls (snd (admitStrivenCall E s)) = itemCalls s"
  by (simp add: admitStrivenCall_def canSpendStrivenCall_def spendStrivenCall_def
      getRetryAfterSeconds_def Date_now_def reset_eq Let_def split_def)

lemma admit_denied_window:
  assumes "fst (admitStrivenCall E s) = Inl r"
  shows "(windowCount (snd (admitStrivenCall E s)) = windowCount s
          \<and> windowStartMs (snd (admitStrivenCall E s)) = windowStartMs s)
         \<or> windowCount (snd (admitStrivenCall E s)) = 0"
  using assms
  by (auto simp: admitStrivenCall_def canSpendStrivenCall_def spendStrivenCall_def
      getRetryAfterSeconds_def Date_now_def reset_eq Let_def split_def split: if_splits)

lemma token_frame:
  "itemCalls (snd (getAccessToken E s)) = itemCalls s
   \<and> tokenCalls s \<le> tokenCalls (snd (getAccessToken E s))"
  by (simp add: getAccessToken_def Date_now_def Let_def split_def
      split: fetch_result.splits option.splits sum.splits)

lemma token_error_called:
  "fst (getAccessToken E s) = Inl e \<Longrightarrow> tokenCalls (snd (getAccessToken E s)) = Suc (tokenCalls s)"
  by (simp add: getAccessToken_def Date_now_def Let_def split_def
      split: fetch_result.splits option.splits sum.splits if_splits)

lemma strivenFetch_denied:
  assumes "admitStrivenCall E s = (Inl r, s1)"
  shows "strivenFetch E path s = (Inl (RateGuardError r), s1)"
  using assms by (simp add: strivenFetch_def)

lemma strivenFetch_admitted:
  assumes a: "admitStrivenCall E s = (Inr u, s1)"
  shows "upstreamCalls s < upstreamCalls (snd (strivenFetch E path s))
         \<and> windowCount (snd (strivenFetch E path s)) = windowCount s1
         \<and> windowStartMs (snd (strivenFetch E path s)) = windowStartMs s1"
proof -
  obtain t s2 where t: "getAccessToken E s1 = (t, s2)" by (cases "getAccessToken E s1")
  have c1: "tokenCalls s1 = tokenCalls s \<and> itemCalls s1 = itemCalls s"
    using admit_frame [of E s] a by simp
  have c2: "itemCalls s2 = itemCalls s1 \<and> tokenCalls s1 \<le> tokenCalls s2"
    using token_frame [of E s1] t by simp
  have w2: "windowCount s2 = windowCount s1 \<and> windowStartMs s2 = windowStartMs s1"
    using token_window [of E s1] t by simp
  show ?thesis
  proof (cases t)
    case (Inl e)
    then have "tokenCalls s2 = Suc (tokenCalls s1)" using token_error_called [of E s1 e] t by simp
    then show ?thesis using a t Inl c1 c2 w2 by (simp add: strivenFetch_def upstreamCalls_def)
  next
    case (Inr tok)
    then show ?thesis using a t c1 c2 w2
      by (simp add: strivenFetch_def upstreamCalls_def Let_def
          split: fetch_result.splits option.splits)
  qed
qed

lemma cacheSet_frame:
  "tokenCalls (cacheSetItem E i v s) = tokenCalls s \<and> itemCalls (cacheSetItem E i v s) = itemCalls s"
  by (simp add: cacheSetItem_def Date_now_def)

lemma cacheGet_frame:
  "tokenCalls (snd (cacheGetItem E i s)) = tokenCalls s
   \<and> itemCalls (snd (cacheGetItem E i s)) = itemCalls s"
  by (simp add: cacheGetItem_def Date_now_def Let_def split: option.splits prod.splits)

lemma fetchFresh_denied:
  assumes "admitStrivenCall E s = (Inl r, s1)"
  shows "fetchFresh E i s = (Inl (RateGuardError r), s1)"
  using strivenFetch_denied [OF assms] by (simp add: fetchFresh_def)

lemma fetchFresh_admitted:
  assumes a: "admitStrivenCall E s = (Inr u, s1)"
  shows "upstreamCalls s < upstreamCalls (snd (fetchFresh E i s))
         \<and> windowCount (snd (fetchFresh E i s)) = windowCount s1
         \<and> windowStartMs (snd (fetchFresh E i s)) = windowStartMs s1"
proof -
  obtain r s2 where r: "strivenFetch E (itemPath E i) s = (r, s2)"
    by (cases "strivenFetch E (itemPath E i) s")
  show ?thesis using strivenFetch_admitted [OF a, of "itemPath E i"] r
    by (cases r) (simp_all add: fetchFresh_def upstreamCalls_def cacheSet_frame cacheSet_window)
qed

lemma fetchFresh_quota:
  "(upstreamCalls (snd (fetchFresh E i s)) = upstreamCalls s \<longrightarrow>
      (windowCount (snd (fetchFresh E i s)) = windowCount s
       \<and> windowStartMs (snd (fetchFresh E i s)) = windowStartMs s)
      \<or> windowCount (snd (fetchFresh E i s)) = 0)"
proof (cases "admitStrivenCall E s")
  case (Pair a s1)
  show ?thesis
  proof (cases a)
    case (Inl r)
    then show ?thesis
      using Pair fetchFresh_denied [of E s r s1 i] admit_denied_window [of E s r] by simp
  next
    case (Inr u)
    then show ?thesis using Pair fetchFresh_admitted [of E s u s1 i] by simp
  qed
qed

lemma admit_admitted_count:
  assumes "admitStrivenCall E s = (Inr u, s1)"
  shows "windowCount s1 = windowCount s + 1 \<or> windowCount s1 = 1"
  using assms
  by (auto simp: admitStrivenCall_def canSpendStrivenCall_def spendStrivenCall_def
      getRetryAfterSeconds_def Date_now_def reset_eq Let_def split_def split: if_splits)

lemma strivenFetch_item_call:
  assumes a: "admitStrivenCall E s = (Inr u, s1)"
      and t: "getAccessToken E s1 = (Inr tok, s2)"
  shows "itemCalls (snd (strivenFetch E path s)) = Suc (itemCalls s)
         \<and> (itemEndpoint E (itemCalls s) path tok = Responded rs \<and> res_ok rs
              \<and> body_json rs = Some v
            \<longrightarrow> strivenFetch E path s = (Inr v, s2\<lparr>itemCalls := Suc (itemCalls s)\<rparr>))"
proof -
  have c1: "itemCalls s1 = itemCalls s" using admit_frame [of E s] a by simp
  have c2: "itemCalls s2 = itemCalls s1" using token_frame [of E s1] t by simp
  show ?thesis using a t c1 c2
    by (simp add: strivenFetch_def Let_def split: fetch_result.splits option.splits)
qed

lemma fetchFresh_item_call:
  assumes a: "admitStrivenCall E s = (Inr u, s1)"
      and t: "getAccessToken E s1 = (Inr tok, s2)"
  shows "itemCalls (snd (fetchFresh E i s)) = Suc (itemCalls s)
         \<and> (itemEndpoint E (itemCalls s) (itemPath E i) tok = Responded rs \<and> res_ok rs
              \<and> body_json rs = Some v
            \<longrightarrow> fst (fetchFresh E i s) = Inr v
                \<and> itemByIdCache (snd (fetchFresh E i s)) (String_js (js E) i)
                    = Some (clock E (ticks s2), v))"
proof -
  obtain r s3 where r: "strivenFetch E (itemPath E i) s = (r, s3)"
    by (cases "strivenFetch E (itemPath E i) s")
  have n: "itemCalls (snd (fetchFresh E i s)) = Suc (itemCalls s)"
    using strivenFetch_item_call [OF a t, of "itemPath E i"] r
    by (cases r) (simp_all add: fetchFresh_def cacheSet_frame)
  have ok: "fst (fetchFresh E i s) = Inr v
            \<and> itemByIdCache (snd (fetchFresh E i s)) (String_js (js E) i)
                = Some (clock E (ticks s2), v)"
    if "itemEndpoint E (itemCalls s) (itemPath E i) tok = Responded rs" "res_ok rs"
       "body_json rs = Some v"
  proof -
    have "strivenFetch E (itemPath E i) s = (Inr v, s2\<lparr>itemCalls := Suc (itemCalls s)\<rparr>)"
      using strivenFetch_item_call [OF a t, of "itemPath E i" rs v] that by simp
    then show ?thesis by (simp add: fetchFresh_def cacheSet_entry)
  qed
  show ?thesis using n ok by blast
qed

lemma fetchFresh_denied_frame:
  assumes "admitStrivenCall E s = (Inl r, s1)"
  shows "upstreamCalls s1 = upstreamCalls s
         \<and> (windowCount s1 = windowCount s \<or> windowCount s1 = 0)"
  using admit_frame [of E s] admit_denied_window [of E s r] assms
  by (auto simp: upstreamCalls_def)

text \<open>
  C6, as the claim states it, fails: a read after the TTL does not always cause an upstream
  fetch. In \<open>staleFull\<close> the entry for the key 7 is older than ten minutes and the rate
  window is full; the cached fetch deletes the entry and ends with the guard's quota error,
  and no upstream call has been made.
\<close>

theorem stale_entry_denied_without_fetch:
  "itemByIdCache staleFull (String_js (js demoEnv) (JStr ''7'')) = Some (0, plainItem)
   \<and> clock demoEnv (ticks staleFull) - 0 > ITEM_CACHE_TTL_MS
   \<and> fst (cacheGetItem demoEnv (JStr ''7'') staleFull) = JNull
   \<and> fst (fetchItemByIdCached demoEnv (JStr ''7'') staleFull) = Inl (RateGuardError 50)
   \<and> upstreamCalls (snd (fetchItemByIdCached demoEnv (JStr ''7'') staleFull))
       = upstreamCalls staleFull
   \<and> itemByIdCache (snd (fetchItemByIdCached demoEnv (JStr ''7'') staleFull)) ''7'' = None"
  by code_simp

text \<open>
  C6, amended. \<^verbatim>\<open>put\<close> stores the value under the string form of the identifier, with
  the time of storing, and overwrites what was there. In any state whose entry for that key
  is \<open>(t, v)\<close>: a \<^verbatim>\<open>get\<close> at a time \<open>t'\<close> with \<open>t' - t \<le> TTL\<close> (600000 ms) returns
  exactly \<open>v\<close> and changes nothing but the number of clock readings, so it calls nothing
  upstream (and the cached fetch returns a truthy \<open>v\<close> the same way); a \<^verbatim>\<open>get\<close> with
  \<open>t' - t > TTL\<close> returns \<^verbatim>\<open>null\<close> for "absent" and deletes the entry, and the cached
  fetch then goes to the rate guard. When the guard denies, the cached fetch ends with the
  quota error and the guard's state. When the guard admits, an upstream call is made: to
  the token endpoint and, once a token is held, exactly one to the item endpoint, for the
  path of the identifier; the value of a successful answer is returned and stored under the
  key with the time of storing.
\<close>

theorem item_cache_get_put:
  "itemByIdCache (cacheSetItem E i v s) =
     (itemByIdCache s)(String_js (js E) i \<mapsto> (clock E (ticks s), v))
   \<and> (itemByIdCache s' (String_js (js E) i) = Some (t, v)
        \<and> clock E (ticks s') - t \<le> ITEM_CACHE_TTL_MS
      \<longrightarrow> cacheGetItem E i s' = (v, s'\<lparr>ticks := Suc (ticks s')\<rparr>)
          \<and> (truthy v \<longrightarrow> fetchItemByIdCached E i s' = (Inr v, s'\<lparr>ticks := Suc (ticks s')\<rparr>)))
   \<and> (itemByIdCache s' (String_js (js E) i) = Some (t, v)
        \<and> clock E (ticks s') - t > ITEM_CACHE_TTL_MS
        \<and> sd = s'\<lparr>ticks := Suc (ticks s'),
                   itemByIdCache := (itemByIdCache s')(String_js (js E) i := None)\<rparr>
      \<longrightarrow> cacheGetItem E i s' = (JNull, sd)
          \<and> (admitStrivenCall E sd = (Inl r, s1)
              \<longrightarrow> fetchItemByIdCached E i s' = (Inl (RateGuardError r), s1)
                  \<and> upstreamCalls s1 = upstreamCalls s')
          \<and> (admitStrivenCall E sd = (Inr u, s1)
              \<longrightarrow> upstreamCalls s' < upstreamCalls (snd (fetchItemByIdCached E i s'))
                  \<and> (getAccessToken E s1 = (Inr tok, s2)
                      \<longrightarrow> itemCalls (snd (fetchItemByIdCached E i s')) = Suc (itemCalls s')
                          \<and> (itemEndpoint E (itemCalls s') (itemPath E i) tok = Responded rs
                                \<and> res_ok rs \<and> body_json rs = Some v'
                              \<longrightarrow> fst (fetchItemByIdCached E i s') = Inr v'
                                  \<and> itemByIdCache (snd (fetchItemByIdCached E i s'))
                                       (String_js (js E) i) = Some (clock E (ticks s2), v')))))"
proof -
  have fresh: "cacheGetItem E i s' = (v, s'\<lparr>ticks := Suc (ticks s')\<rparr>)
          \<and> (truthy v \<longrightarrow> fetchItemByIdCached E i s' = (Inr v, s'\<lparr>ticks := Suc (ticks s')\<rparr>))"
    if "itemByIdCache s' (String_js (js E) i) = Some (t, v)"
      and "clock E (ticks s') - t \<le> ITEM_CACHE_TTL_MS"
    using cacheGet_fresh [OF that] by (simp add: fetch_unfold)
  have stale: "cacheGetItem E i s' = (JNull, sd)
          \<and> (admitStrivenCall E sd = (Inl r, s1)
              \<longrightarrow> fetchItemByIdCached E i s' = (Inl (RateGuardError r), s1)
                  \<and> upstreamCalls s1 = upstreamCalls s')
          \<and> (admitStrivenCall E sd = (Inr u, s1)
              \<longrightarrow> upstreamCalls s' < upstreamCalls (snd (fetchItemByIdCached E i s'))
                  \<and> (getAccessToken E s1 = (Inr tok, s2)
                      \<longrightarrow> itemCalls (snd (fetchItemByIdCached E i s')) = Suc (itemCalls s')
                          \<and> (itemEndpoint E (itemCalls s') (itemPath E i) tok = Responded rs
                                \<and> res_ok rs \<and> body_json rs = Some v'
                              \<longrightarrow> fst (fetchItemByIdCached E i s') = Inr v'
                                  \<and> itemByIdCache (snd (fetchItemByIdCached E i s'))
                                       (String_js (js E) i) = Some (clock E (ticks s2), v'))))"
    if e: "itemByIdCache s' (String_js (js E) i) = Some (t, v)"
      and o: "clock E (ticks s') - t > ITEM_CACHE_TTL_MS"
      and sd: "sd = s'\<lparr>ticks := Suc (ticks s'),
                   itemByIdCache := (itemByIdCache s')(String_js (js E) i := None)\<rparr>"
  proof -
    have g: "cacheGetItem E i s' = (JNull, sd)" using cacheGet_stale [OF e o] sd by simp
    have f: "fetchItemByIdCached E i s' = fetchFresh E i sd"
      using g by (simp add: fetch_unfold JNull_falsy)
    have u: "upstreamCalls sd = upstreamCalls s'" "itemCalls sd = itemCalls s'"
      by (simp_all add: sd upstreamCalls_def)
    have d: "fetchItemByIdCached E i s' = (Inl (RateGuardError r), s1)
             \<and> upstreamCalls s1 = upstreamCalls s'"
      if "admitStrivenCall E sd = (Inl r, s1)"
      using fetchFresh_denied [OF that, of i] fetchFresh_denied_frame [OF that] f u by simp
    have a: "upstreamCalls s' < upstreamCalls (snd (fetchItemByIdCached E i s'))"
      if "admitStrivenCall E sd = (Inr u, s1)"
      using fetchFresh_admitted [OF that, of i] f u by simp
    have c: "itemCalls (snd (fetchItemByIdCached E i s')) = Suc (itemCalls s')
             \<and> (itemEndpoint E (itemCalls s') (itemPath E i) tok = Responded rs
                   \<and> res_ok rs \<and> body_json rs = Some v'
                 \<longrightarrow> fst (fetchItemByIdCached E i s') = Inr v'
                     \<and> itemByIdCache (snd (fetchItemByIdCached E i s'))
                          (String_js (js E) i) = Some (clock E (ticks s2), v'))"
      if "admitStrivenCall E sd = (Inr u, s1)" "getAccessToken E s1 = (Inr tok, s2)"
      using fetchFresh_item_call [OF that, of i rs v'] f u by simp
    show ?thesis using g d a c by blast
  qed
  show ?thesis using cacheSet_entry [of E i v s] fresh stale by blast
qed

text \<open>
  C8, amended. A cached fetch that is served from the cache returns the cached value and
  changes neither the window counter, nor the window start, nor the number of upstream
  calls; and a cached fetch that makes no upstream call at all (neither to the token endpoint
  nor to the item endpoint) does not raise the counter: it leaves the window as it was or
  resets the counter to 0.
\<close>

theorem quota_only_with_upstream_call:
  "(truthy (fst (cacheGetItem E i s)) \<longrightarrow>
      fst (fetchItemByIdCached E i s) = Inr (fst (cacheGetItem E i s))
      \<and> windowCount (snd (fetchItemByIdCached E i s)) = windowCount s
      \<and> windowStartMs (snd (fetchItemByIdCached E i s)) = windowStartMs s
      \<and> upstreamCalls (snd (fetchItemByIdCached E i s)) = upstreamCalls s)
   \<and> (upstreamCalls (snd (fetchItemByIdCached E i s)) = upstreamCalls s \<longrightarrow>
        (windowCount (snd (fetchItemByIdCached E i s)) = windowCount s
         \<and> windowStartMs (snd (fetchItemByIdCached E i s)) = windowStartMs s)
        \<or> windowCount (snd (fetchItemByIdCached E i s)) = 0)"
proof -
  obtain c s1 where c: "cacheGetItem E i s = (c, s1)" by (cases "cacheGetItem E i s")
  have w: "windowCount s1 = windowCount s \<and> windowStartMs s1 = windowStartMs s"
    using cacheGet_window [of E i s] c by simp
  have u: "upstreamCalls s1 = upstreamCalls s"
    using cacheGet_frame [of E i s] c by (simp add: upstreamCalls_def)
  show ?thesis
  proof (cases "truthy c")
    case True
    then show ?thesis using c w u by (simp add: fetch_unfold)
  next
    case False
    then show ?thesis using c w u fetchFresh_quota [of E i s1] by (simp add: fetch_unfold)
  qed
qed


text \<open>
  C10, as the claim states it, fails: a falsy entry inside its TTL does not always lead to
  an upstream fetch that consumes quota. In \<open>falsyFull\<close> the entry for the key 7 is
  \<^verbatim>\<open>null\<close>, stored one second before, and the rate window is full; the cached fetch ends
  with the guard's quota error, no upstream call has been made and the counter is as it was.
\<close>

theorem falsy_entry_denied_without_fetch:
  "itemByIdCache falsyFull (String_js (js demoEnv) (JStr ''7'')) = Some (0, JNull)
   \<and> clock demoEnv (ticks falsyFull) - 0 \<le> ITEM_CACHE_TTL_MS
   \<and> \<not> truthy JNull
   \<and> fst (fetchItemByIdCached demoEnv (JStr ''7'') falsyFull) = Inl (RateGuardError 56)
   \<and> upstreamCalls (snd (fetchItemByIdCached demoEnv (JStr ''7'') falsyFull))
       = upstreamCalls falsyFull
   \<and> windowCount (snd (fetchItemByIdCached demoEnv (JStr ''7'') falsyFull))
       = windowCount falsyFull"
  by code_simp

text \<open>
  C10, amended. With an entry for the key that is within its TTL, the cached fetch returns
  the stored value without going upstream when the value is truthy. When the value is falsy
  (\<^verbatim>\<open>null\<close>, \<^verbatim>\<open>0\<close>, \<^verbatim>\<open>""\<close>, \<^verbatim>\<open>false\<close>) the entry counts as a miss and the cached fetch
  goes to the rate guard: when the guard admits, the call is spent (the counter is 1 more
  than before, or 1 after a reset of the window) and an upstream call is made, one to the
  item endpoint once a token is held; when the guard denies, the cached fetch ends with the
  quota error, nothing is spent and no upstream call is made.
\<close>

theorem falsy_entry_is_a_miss:
  assumes hit: "itemByIdCache s (String_js (js E) i) = Some (t, v)"
      and ttl: "clock E (ticks s) - t \<le> ITEM_CACHE_TTL_MS"
  shows "(truthy v \<longrightarrow> fetchItemByIdCached E i s = (Inr v, s\<lparr>ticks := Suc (ticks s)\<rparr>))
       \<and> (\<not> truthy v \<and> admitStrivenCall E (s\<lparr>ticks := Suc (ticks s)\<rparr>) = (Inr u, s2)
          \<longrightarrow> (windowCount s2 = windowCount s + 1 \<or> windowCount s2 = 1)
              \<and> windowCount (snd (fetchItemByIdCached E i s)) = windowCount s2
              \<and> upstreamCalls s < upstreamCalls (snd (fetchItemByIdCached E i s))
              \<and> (getAccessToken E s2 = (Inr tok, s3)
                  \<longrightarrow> itemCalls (snd (fetchItemByIdCached E i s)) = Suc (itemCalls s)))
       \<and> (\<not> truthy v \<and> admitStrivenCall E (s\<lparr>ticks := Suc (ticks s)\<rparr>) = (Inl r, s2)
          \<longrightarrow> fetchItemByIdCached E i s = (Inl (RateGuardError r), s2)
              \<and> upstreamCalls s2 = upstreamCalls s
              \<and> (windowCount s2 = windowCount s \<or> windowCount s2 = 0))"
proof -
  let ?s1 = "s\<lparr>ticks := Suc (ticks s)\<rparr>"
  have eq: "fetchItemByIdCached E i s =
           (if truthy v then (Inr v, ?s1) else fetchFresh E i ?s1)"
    using cacheGet_fresh [OF hit ttl] by (simp add: fetch_unfold)
  have u: "upstreamCalls ?s1 = upstreamCalls s" "itemCalls ?s1 = itemCalls s"
          "windowCount ?s1 = windowCount s"
    by (simp_all add: upstreamCalls_def)
  have adm: "(windowCount s2 = windowCount s + 1 \<or> windowCount s2 = 1)
              \<and> windowCount (snd (fetchItemByIdCached E i s)) = windowCount s2
              \<and> upstreamCalls s < upstreamCalls (snd (fetchItemByIdCached E i s))
              \<and> (getAccessToken E s2 = (Inr tok, s3)
                  \<longrightarrow> itemCalls (snd (fetchItemByIdCached E i s)) = Suc (itemCalls s))"
    if f: "\<not> truthy v" and a: "admitStrivenCall E ?s1 = (Inr u, s2)"
  proof -
    have 1: "windowCount s2 = windowCount s + 1 \<or> windowCount s2 = 1"
      using admit_admitted_count [OF a] u by simp
    have 2: "windowCount (snd (fetchItemByIdCached E i s)) = windowCount s2
             \<and> upstreamCalls s < upstreamCalls (snd (fetchItemByIdCached E i s))"
      using fetchFresh_admitted [OF a, of i] eq f u by simp
    have 3: "itemCalls (snd (fetchItemByIdCached E i s)) = Suc (itemCalls s)"
      if "getAccessToken E s2 = (Inr tok, s3)"
      using fetchFresh_item_call [OF a that, of i] eq f u by simp
    show ?thesis using 1 2 3 by blast
  qed
  have den: "fetchItemByIdCached E i s = (Inl (RateGuardError r), s2)
              \<and> upstreamCalls s2 = upstreamCalls s
              \<and> (windowCount s2 = windowCount s \<or> windowCount s2 = 0)"
    if f: "\<not> truthy v" and a: "admitStrivenCall E ?s1 = (Inl r, s2)"
    using fetchFresh_denied [OF a, of i] fetchFresh_denied_frame [OF a] eq f u by simp
  show ?thesis using eq adm den by auto
qed







text \<open>
  C8, as the claim states it, fails: \<^verbatim>\<open>strivenFetch\<close> spends the call before it asks for
  the token. When the token endpoint answers 401 the fetch ends with that error, the window
  counter has gone up by 1, and the item endpoint has not been called.
\<close>

theorem quota_spent_without_item_call:
  "fst (fetchItemByIdCached tokenDownEnv (JStr ''7'') (initialState tokenDownEnv)) =
     Inl (TokenRequestFailed 401 ''denied'')
   \<and> windowCount (snd (fetchItemByIdCached tokenDownEnv (JStr ''7'') (initialState tokenDownEnv))) =
       windowCount (initialState tokenDownEnv) + 1
   \<and> itemCalls (snd (fetchItemByIdCached tokenDownEnv (JStr ''7'') (initialState tokenDownEnv))) =
       itemCalls (initialState tokenDownEnv)"
  by code_simp



lemma demo_cache_facts:
  "itemByIdCache (withCached v) (String_js (js demoEnv) (JStr ''7'')) = Some (0, v)"
  "clock demoEnv (ticks (withCached v)) - 0 \<le> ITEM_CACHE_TTL_MS"
  "itemByIdCache ((withCached v)\<lparr>ticks := 9\<rparr>) (String_js (js demoEnv) (JStr ''7'')) = Some (0, v)"
  "clock demoEnv (ticks ((withCached v)\<lparr>ticks := 9\<rparr>)) - 0 > ITEM_CACHE_TTL_MS"
  by (simp_all add: withCached_def initialState_def demoEnv_def String_js_def
      ITEM_CACHE_TTL_MS_def)

lemma demo_truthy: "truthy plainItem" "\<not> truthy JNull"
  by (simp_all add: plainItem_def truthy_def)

text \<open>
  The state that the stale read of the key 7 leaves behind at the tenth reading of the
  clock, and what the guard, the token cache and the item endpoint of \<open>demoEnv\<close> do from it.
\<close>

lemma demo_stale_run:
  "fst (admitStrivenCall demoEnv
          ((withCached plainItem)\<lparr>ticks := 10, itemByIdCache := [''7'' \<mapsto> (0, plainItem)](''7'' := None)\<rparr>))
     = Inr ()"
  "fst (getAccessToken demoEnv (snd (admitStrivenCall demoEnv
          ((withCached plainItem)\<lparr>ticks := 10, itemByIdCache := [''7'' \<mapsto> (0, plainItem)](''7'' := None)\<rparr>))))
     = Inr (JStr ''tok'')"
  "itemEndpoint demoEnv (itemCalls ((withCached plainItem)\<lparr>ticks := 9\<rparr>))
     (itemPath demoEnv (JStr ''7'')) (JStr ''tok'')
     = Responded \<lparr> res_status = 200, body_text = [], body_json = Some plainItem,
                   retry_after_header = None \<rparr>"
  "res_ok \<lparr> res_status = 200, body_text = [], body_json = Some plainItem,
            retry_after_header = None \<rparr>"
  "itemCalls ((withCached plainItem)\<lparr>ticks := 9\<rparr>) = 0"
  "upstreamCalls ((withCached plainItem)\<lparr>ticks := 9\<rparr>) = 0"
  by code_simp+

theorem item_cache_get_put_witness:
  "itemByIdCache (cacheSetItem demoEnv (JStr ''7'') plainItem (initialState demoEnv)) ''7''
     = Some (1000, plainItem)
   \<and> cacheGetItem demoEnv (JStr ''7'') (withCached plainItem)
       = (plainItem, (withCached plainItem)\<lparr>ticks := 2\<rparr>)
   \<and> fetchItemByIdCached demoEnv (JStr ''7'') (withCached plainItem)
       = (Inr plainItem, (withCached plainItem)\<lparr>ticks := 2\<rparr>)
   \<and> fst (cacheGetItem demoEnv (JStr ''7'') ((withCached plainItem)\<lparr>ticks := 9\<rparr>)) = JNull
   \<and> itemByIdCache (snd (cacheGetItem demoEnv (JStr ''7'') ((withCached plainItem)\<lparr>ticks := 9\<rparr>)))
        ''7'' = None
   \<and> 0 < upstreamCalls (snd (fetchItemByIdCached demoEnv (JStr ''7'')
                                 ((withCached plainItem)\<lparr>ticks := 9\<rparr>)))
   \<and> itemCalls (snd (fetchItemByIdCached demoEnv (JStr ''7'')
                        ((withCached plainItem)\<lparr>ticks := 9\<rparr>))) = 1
   \<and> fst (fetchItemByIdCached demoEnv (JStr ''7'') ((withCached plainItem)\<lparr>ticks := 9\<rparr>))
       = Inr plainItem"
proof -
  let ?s9 = "(withCached plainItem)\<lparr>ticks := 9\<rparr>"
  let ?sd = "(withCached plainItem)\<lparr>ticks := 10, itemByIdCache := [''7'' \<mapsto> (0, plainItem)](''7'' := None)\<rparr>"
  let ?a = "admitStrivenCall demoEnv ?sd"
  let ?t = "getAccessToken demoEnv (snd ?a)"
  let ?rs = "\<lparr> res_status = 200, body_text = [], body_json = Some plainItem,
                retry_after_header = None \<rparr>"
  have k: "String_js (js demoEnv) (JStr ''7'') = ''7''" by (simp add: String_js_def)
  have t: "ticks (withCached plainItem) = Suc 0 \<and> ticks (initialState demoEnv) = Suc 0
           \<and> clock demoEnv (Suc 0) = 1000"
    by (simp add: withCached_def initialState_def demoEnv_def)
  from item_cache_get_put [of demoEnv "JStr ''7''" plainItem "initialState demoEnv" "withCached plainItem" 0]
    demo_cache_facts [of plainItem] demo_truthy
  have a: "itemByIdCache (cacheSetItem demoEnv (JStr ''7'') plainItem (initialState demoEnv)) ''7''
             = Some (1000, plainItem)
           \<and> cacheGetItem demoEnv (JStr ''7'') (withCached plainItem)
               = (plainItem, (withCached plainItem)\<lparr>ticks := 2\<rparr>)
           \<and> fetchItemByIdCached demoEnv (JStr ''7'') (withCached plainItem)
               = (Inr plainItem, (withCached plainItem)\<lparr>ticks := 2\<rparr>)"
    by (simp add: k t eval_nat_numeral)
  have sd: "?sd = ?s9\<lparr>ticks := Suc (ticks ?s9),
                     itemByIdCache := (itemByIdCache ?s9)(String_js (js demoEnv) (JStr ''7'') := None)\<rparr>"
    by (simp add: k withCached_def)
  have h1: "itemByIdCache ?s9 (String_js (js demoEnv) (JStr ''7'')) = Some (0, plainItem)"
    by (rule demo_cache_facts)
  have h2: "clock demoEnv (ticks ?s9) - 0 > ITEM_CACHE_TTL_MS" by (rule demo_cache_facts)
  have ad: "?a = (Inr (), snd ?a)" using demo_stale_run(1) by (simp add: prod_eq_iff)
  have tk: "?t = (Inr (JStr ''tok''), snd ?t)" using demo_stale_run(2) by (simp add: prod_eq_iff)
  have ep: "itemEndpoint demoEnv (itemCalls ?s9) (itemPath demoEnv (JStr ''7'')) (JStr ''tok'')
              = Responded ?rs" by (rule demo_stale_run(3))
  have ok: "res_ok ?rs" by (rule demo_stale_run(4))
  have bj: "body_json ?rs = Some plainItem" by simp
  from item_cache_get_put [where E = demoEnv and i = "JStr ''7''" and s' = ?s9 and t = 0
      and v = plainItem and sd = ?sd and u = "()" and ?s1.0 = "snd ?a"
      and tok = "JStr ''tok''" and ?s2.0 = "snd ?t" and rs = ?rs and v' = plainItem]
    h1 h2 sd ad tk ep ok bj
  have b: "cacheGetItem demoEnv (JStr ''7'') ?s9 = (JNull, ?sd)
           \<and> upstreamCalls ?s9 < upstreamCalls (snd (fetchItemByIdCached demoEnv (JStr ''7'') ?s9))
           \<and> itemCalls (snd (fetchItemByIdCached demoEnv (JStr ''7'') ?s9)) = Suc (itemCalls ?s9)
           \<and> fst (fetchItemByIdCached demoEnv (JStr ''7'') ?s9) = Inr plainItem"
    by blast
  have c: "itemByIdCache ?sd ''7'' = None" by simp
  from a b c demo_stale_run(5,6) show ?thesis by simp
qed

lemma demo_falsy_run:
  "fst (admitStrivenCall demoEnv ((withCached JNull)\<lparr>ticks := Suc (ticks (withCached JNull))\<rparr>))
     = Inr ()"
  "fst (getAccessToken demoEnv (snd (admitStrivenCall demoEnv
          ((withCached JNull)\<lparr>ticks := Suc (ticks (withCached JNull))\<rparr>))))
     = Inr (JStr ''tok'')"
  "windowCount (withCached JNull) = 0"
  "upstreamCalls (withCached JNull) = 0"
  "itemCalls (withCached JNull) = 0"
  "windowCount (snd (admitStrivenCall demoEnv
          ((withCached JNull)\<lparr>ticks := Suc (ticks (withCached JNull))\<rparr>))) = 1"
  by code_simp+

theorem falsy_entry_is_a_miss_witness:
  "windowCount (snd (fetchItemByIdCached demoEnv (JStr ''7'') (withCached JNull))) = 1
   \<and> 0 < upstreamCalls (snd (fetchItemByIdCached demoEnv (JStr ''7'') (withCached JNull)))
   \<and> itemCalls (snd (fetchItemByIdCached demoEnv (JStr ''7'') (withCached JNull))) = 1"
proof -
  let ?s = "withCached JNull"
  let ?s1 = "?s\<lparr>ticks := Suc (ticks ?s)\<rparr>"
  let ?a = "admitStrivenCall demoEnv ?s1"
  let ?t = "getAccessToken demoEnv (snd ?a)"
  have hit: "itemByIdCache ?s (String_js (js demoEnv) (JStr ''7'')) = Some (0, JNull)"
    by (rule demo_cache_facts)
  have ttl: "clock demoEnv (ticks ?s) - 0 \<le> ITEM_CACHE_TTL_MS"
    by (rule demo_cache_facts)
  have f: "\<not> truthy JNull" by (rule demo_truthy)
  have ad: "?a = (Inr (), snd ?a)" using demo_falsy_run(1) by (simp add: prod_eq_iff)
  have tk: "?t = (Inr (JStr ''tok''), snd ?t)" using demo_falsy_run(2) by (simp add: prod_eq_iff)
  from falsy_entry_is_a_miss [OF hit ttl, where u = "()" and ?s2.0 = "snd ?a"
      and tok = "JStr ''tok''" and ?s3.0 = "snd ?t"] f ad tk
  have "windowCount (snd (fetchItemByIdCached demoEnv (JStr ''7'') ?s)) = windowCount (snd ?a)
        \<and> upstreamCalls ?s < upstreamCalls (snd (fetchItemByIdCached demoEnv (JStr ''7'') ?s))
        \<and> itemCalls (snd (fetchItemByIdCached demoEnv (JStr ''7'') ?s)) = Suc (itemCalls ?s)"
    by blast
  then show ?thesis using demo_falsy_run(3,4,5,6) by simp
qed

lemma lateWindow_fetch:
  "upstreamCalls (snd (fetchItemByIdCached demoEnv (JStr ''9'') (lateWindow 2)))
     = upstreamCalls (lateWindow 2)"
  "windowCount (snd (fetchItemByIdCached demoEnv (JStr ''9'') (lateWindow 2))) \<noteq> 0"
  "fst (fetchItemByIdCached demoEnv (JStr ''9'') (lateWindow 2)) = Inl (RateGuardError 50)"
  by code_simp+

theorem quota_only_with_upstream_call_witness:
  "truthy (fst (cacheGetItem demoEnv (JStr ''7'') (withCached plainItem)))
   \<and> fst (fetchItemByIdCached demoEnv (JStr ''7'') (withCached plainItem)) = Inr plainItem
   \<and> windowCount (snd (fetchItemByIdCached demoEnv (JStr ''7'') (withCached plainItem))) = 0
   \<and> upstreamCalls (snd (fetchItemByIdCached demoEnv (JStr ''7'') (withCached plainItem))) = 0
   \<and> fst (fetchItemByIdCached demoEnv (JStr ''9'') (lateWindow 2)) = Inl (RateGuardError 50)
   \<and> upstreamCalls (snd (fetchItemByIdCached demoEnv (JStr ''9'') (lateWindow 2)))
       = upstreamCalls (lateWindow 2)
   \<and> windowCount (snd (fetchItemByIdCached demoEnv (JStr ''9'') (lateWindow 2))) = 2
   \<and> windowStartMs (snd (fetchItemByIdCached demoEnv (JStr ''9'') (lateWindow 2))) = 690000"
proof -
  have g: "fst (cacheGetItem demoEnv (JStr ''7'') (withCached plainItem)) = plainItem"
    using cacheGet_fresh [of "withCached plainItem" demoEnv "JStr ''7''" 0 plainItem]
      demo_cache_facts [of plainItem] by simp
  have z: "windowCount (withCached plainItem) = 0 \<and> upstreamCalls (withCached plainItem) = 0"
    by (simp add: withCached_def initialState_def upstreamCalls_def)
  from quota_only_with_upstream_call [of demoEnv "JStr ''7''" "withCached plainItem"] g demo_truthy z
  have a: "truthy (fst (cacheGetItem demoEnv (JStr ''7'') (withCached plainItem)))
   \<and> fst (fetchItemByIdCached demoEnv (JStr ''7'') (withCached plainItem)) = Inr plainItem
   \<and> windowCount (snd (fetchItemByIdCached demoEnv (JStr ''7'') (withCached plainItem))) = 0
   \<and> upstreamCalls (snd (fetchItemByIdCached demoEnv (JStr ''7'') (withCached plainItem))) = 0"
    by simp
  from quota_only_with_upstream_call [of demoEnv "JStr ''9'' " "lateWindow 2"]
    lateWindow_fetch(1,2) lateWindow_facts [of 2]
  have b: "windowCount (snd (fetchItemByIdCached demoEnv (JStr ''9'') (lateWindow 2))) = 2
   \<and> windowStartMs (snd (fetchItemByIdCached demoEnv (JStr ''9'') (lateWindow 2))) = 690000"
    by simp
  from a b lateWindow_fetch(1,3) show ?thesis by simp
qed



section \<open>Batch resolution\<close>











lemma fetchAndPrice_next:
  assumes "fetchAndPrice E (JNum (Fin i)) (JNum (Fin i)) None results s = Next results1 s1"
  shows "results1 = results @ owedRecord E i (fst (fetchItemByIdCached E (JNum (Fin i)) s))
         \<and> s1 = snd (fetchItemByIdCached E (JNum (Fin i)) s)
         \<and> length (owedRecord E i (fst (fetchItemByIdCached E (JNum (Fin i)) s))) = 1"
  using assms
  by (auto simp: fetchAndPrice_def owedRecord_def split_def
      split: sum.splits if_splits prod.splits)

lemma idFinite_lookup:
  "idFinite E x = (case Number_js (js E) (lookupProp x ''id'') of Fin i \<Rightarrow> True | _ \<Rightarrow> False)"
  by (auto simp: idFinite_def getProp_def nullish_def lookupProp_def Number_js_def)

lemma byIdStep_next:
  assumes "byIdStep E x results s = Next results1 s1"
  shows "(case Number_js (js E) (lookupProp x ''id'') of
            Fin i \<Rightarrow>
              results1 = results @ owedRecord E i (fst (fetchItemByIdCached E (JNum (Fin i)) s))
              \<and> s1 = snd (fetchItemByIdCached E (JNum (Fin i)) s)
              \<and> length (owedRecord E i (fst (fetchItemByIdCached E (JNum (Fin i)) s))) = 1
          | _ \<Rightarrow> results1 = results \<and> s1 = s)"
proof (cases "getProp x ''id''")
  case (Inl e)
  then show ?thesis using assms by (simp add: byIdStep_def)
next
  case (Inr raw)
  then have raw: "raw = lookupProp x ''id''" by (simp add: getProp_def split: if_splits)
  show ?thesis
  proof (cases "Number_js (js E) raw")
    case (Fin i)
    from assms Inr Fin
    have "fetchAndPrice E (JNum (Fin i)) (JNum (Fin i)) None results s = Next results1 s1"
      by (simp add: byIdStep_def)
    from fetchAndPrice_next [OF this] show ?thesis using Fin raw by simp
  qed (use assms Inr raw in \<open>simp_all add: byIdStep_def\<close>)
qed

lemma owedRecords_Cons:
  "owedRecords E (x # xs) s =
     (case Number_js (js E) (lookupProp x ''id'') of
        Fin i \<Rightarrow>
          owedRecord E i (fst (fetchItemByIdCached E (JNum (Fin i)) s))
            @ owedRecords E xs (snd (fetchItemByIdCached E (JNum (Fin i)) s))
      | _ \<Rightarrow> owedRecords E xs s)"
  by (simp add: split_def split: jsnum.splits)

lemma forOf_byId_owed:
  "forOf (byIdStep E) xs results s = Next results1 s1 \<Longrightarrow>
   results1 = results @ owedRecords E xs s
   \<and> length (owedRecords E xs s) = length (filter (idFinite E) xs)"
proof (induction xs arbitrary: results s)
  case Nil
  then show ?case by simp
next
  case (Cons x xs)
  show ?case
  proof (cases "byIdStep E x results s")
    case (Return r s')
    then show ?thesis using Cons.prems by simp
  next
    case (Next results' s')
    then have rest: "forOf (byIdStep E) xs results' s' = Next results1 s1"
      using Cons.prems by simp
    from Cons.IH [OF rest] have
      ih: "results1 = results' @ owedRecords E xs s'"
          "length (owedRecords E xs s') = length (filter (idFinite E) xs)"
      by simp_all
    note st = byIdStep_next [OF Next]
    show ?thesis
    proof (cases "Number_js (js E) (lookupProp x ''id'')")
      case (Fin i)
      then show ?thesis using ih st
        by (simp add: owedRecords_Cons [of E x xs s] idFinite_lookup [of E x]
            del: owedRecords.simps)
    qed (use ih st in \<open>simp_all add: owedRecords_Cons [of E x xs s] idFinite_lookup [of E x]
                          del: owedRecords.simps\<close>)
  qed
qed

lemma fetchAndPrice_return:
  "fetchAndPrice E i shown req results s = Return r s1 \<Longrightarrow> r \<noteq> Ok200 out"
  by (auto simp: fetchAndPrice_def quotaResponse_def quotaFallback_def outerCatch_def split_def
      Let_def split: sum.splits if_splits prod.splits option.splits)

lemma byIdStep_return: "byIdStep E x results s = Return r s1 \<Longrightarrow> r \<noteq> Ok200 out"
  by (auto simp: byIdStep_def outerCatch_def dest: fetchAndPrice_return
      split: sum.splits jsnum.splits)

lemma forOf_return:
  assumes step: "\<And>x results s r s1. body x results s = Return r s1 \<Longrightarrow> r \<noteq> Ok200 out"
  shows "forOf body xs results s = Return r s1 \<Longrightarrow> r \<noteq> Ok200 out"
proof (induction xs arbitrary: results s)
  case Nil
  then show ?case by simp
next
  case (Cons x xs)
  show ?case
  proof (cases "body x results s")
    case (Next results' s')
    then show ?thesis using Cons by simp
  next
    case (Return r' s')
    then show ?thesis using Cons.prems step [OF Return] by simp
  qed
qed

text \<open>
  C9, as the claim states it, fails: the batch of the single input line \<^verbatim>\<open>{}\<close> is accepted
  and answered with 200 and no line at all, since \<^verbatim>\<open>Number(undefined)\<close> is not finite and
  the loop skips the line.
\<close>

theorem line_without_finite_id_is_skipped:
  "resolve_lines demoEnv (JObj [(''lines'', JArr [JObj []])]) (initialState demoEnv)
     = (Ok200 [], initialState demoEnv)"
  by (simp add: resolve_lines_def arrayOrEmpty_def optProp_def lookupProp_def nullish_def
      byIdStep_def getProp_def Number_js_def)

text \<open>
  C9, amended. When \<^verbatim>\<open>/api/resolve-lines\<close> answers 200 (no answer 429, no exception in the
  outer \<^verbatim>\<open>catch\<close>), the lines of the answer are the records owed to the input lines, in
  the order of the input: exactly one for each input line whose \<^verbatim>\<open>id\<close> coerces to a finite
  number, which is the error marker with that id and the error of the fetch for that id, or
  the priced payload of the item fetched for that id; and none for an input line whose
  \<^verbatim>\<open>id\<close> does not coerce to a finite number.
\<close>

theorem resolve_lines_one_line_per_finite_id:
  assumes "resolve_lines E body s = (Ok200 results, s')"
  shows "results = owedRecords E (arrayOrEmpty (optProp body ''lines'')) s
       \<and> length results = length (filter (idFinite E) (arrayOrEmpty (optProp body ''lines'')))"
proof -
  let ?ls = "arrayOrEmpty (optProp body ''lines'')"
  have ne: "?ls \<noteq> []" using assms by (auto simp: resolve_lines_def Let_def)
  then have fin: "finish (forOf (byIdStep E) ?ls [] s) = (Ok200 results, s')"
    using assms by (simp add: resolve_lines_def Let_def)
  have nx: "forOf (byIdStep E) ?ls [] s = Next results s'"
  proof (cases "forOf (byIdStep E) ?ls [] s")
    case (Next r1 s1)
    then show ?thesis using fin by simp
  next
    case (Return r s1)
    then have "r = Ok200 results" using fin by simp
    then show ?thesis using forOf_return [of "byIdStep E" results, OF byIdStep_return Return]
      by simp
  qed
  from forOf_byId_owed [OF nx] show ?thesis by simp
qed



lemma isOk200_collapse: "isOk200 r \<Longrightarrow> r = Ok200 (response_lines r)"
  by (cases r) simp_all



lemma demo_lines_run:
  "isOk200 (fst (resolve_lines demoEnv (JObj [(''lines'', JArr [idLine 7, JObj []])])
                  (initialState demoEnv)))"
  "length (filter (idFinite demoEnv)
            (arrayOrEmpty (optProp (JObj [(''lines'', JArr [idLine 7, JObj []])]) ''lines''))) = 1"
  "owedRecords demoEnv
     (arrayOrEmpty (optProp (JObj [(''lines'', JArr [idLine 7, JObj []])]) ''lines''))
     (initialState demoEnv)
   = [PricedLine \<lparr> requestedItemNumber = None, line_id = JUndefined,
                    line_itemNumber = JUndefined, line_name = JUndefined, line_kind = ITEM,
                    workDescription = JStr [], line_rawTotal = Fin 12, roundedTotal = Fin 15,
                    finalTotal = Fin 15, debug_components = [] \<rparr>]"
  by code_simp+

theorem resolve_lines_one_line_per_finite_id_witness:
  "isOk200 (fst (resolve_lines demoEnv (JObj [(''lines'', JArr [idLine 7, JObj []])])
                  (initialState demoEnv)))
   \<and> response_lines (fst (resolve_lines demoEnv
        (JObj [(''lines'', JArr [idLine 7, JObj []])]) (initialState demoEnv)))
     = [PricedLine \<lparr> requestedItemNumber = None, line_id = JUndefined,
                      line_itemNumber = JUndefined, line_name = JUndefined, line_kind = ITEM,
                      workDescription = JStr [], line_rawTotal = Fin 12, roundedTotal = Fin 15,
                      finalTotal = Fin 15, debug_components = [] \<rparr>]
   \<and> length (response_lines (fst (resolve_lines demoEnv
        (JObj [(''lines'', JArr [idLine 7, JObj []])]) (initialState demoEnv)))) = 1"
proof -
  let ?b = "JObj [(''lines'', JArr [idLine 7, JObj []])]"
  let ?r = "resolve_lines demoEnv ?b (initialState demoEnv)"
  have ok: "isOk200 (fst ?r)" by (rule demo_lines_run(1))
  have h: "?r = (Ok200 (response_lines (fst ?r)), snd ?r)"
    using isOk200_collapse [OF ok] by (simp add: prod_eq_iff)
  from resolve_lines_one_line_per_finite_id [OF h] demo_lines_run(2,3) ok show ?thesis by simp
qed

end
